theory Spec2Isabelle
  imports Complex_Main "HOL-Library.Word"
begin

chapter \<open>The embedding\<close>

text \<open>
  The library is C. Sizes and counters (\<open>size_t\<close>, \<open>unsigned int\<close>) are natural numbers
  with the limits the source tests written out (\<open>UINT_MAX\<close>, \<open>SIZE_MAX\<close>); hash values are
  64-bit words. A vertex of a vertex list is the byte string the source copies, compares
  and hashes (\<open>memcpy\<close>, \<open>memcmp\<close>, \<open>siphash\<close> over \<open>vert_size\<close> bytes). An array is the list of
  its used slots. Every allocation can fail: its outcome is read from an environment.
\<close>

section \<open>Limits and bytes\<close>

type_synonym byte = "8 word"

definition UINT_MAX :: nat where
  "UINT_MAX = 4294967295"

definition SIZE_MAX :: nat where
  "SIZE_MAX = 18446744073709551615"

text \<open>\<open>sizeof(float)\<close>.\<close>

definition sizeof_float :: nat where
  "sizeof_float = 4"

text \<open>
  \<open>memcmp(a, b, n)\<close>: the sign of the first differing byte among the first \<open>n\<close>, 0 when
  there is none. The source only calls it on buffers of at least \<open>n\<close> bytes; on a shorter
  list the comparison stops at its end.
\<close>

fun memcmp :: "byte list \<Rightarrow> byte list \<Rightarrow> nat \<Rightarrow> int" where
  "memcmp a b 0 = 0"
| "memcmp [] [] (Suc n) = 0"
| "memcmp [] (y # b) (Suc n) = -1"
| "memcmp (x # a) [] (Suc n) = 1"
| "memcmp (x # a) (y # b) (Suc n) =
     (if x = y then memcmp a b n else if x < y then -1 else 1)"

section \<open>The environment\<close>

text \<open>
  \<open>siphash\<close> is the external SipHash function (\<open>SipHash/siphash.h\<close>, not part of the
  sources): secret, bytes, hash value. The flags give the outcome of the allocations one
  call of the interface can make: the hash element (\<open>malloc\<close> in \<open>Hash_Insert\<close>), the copy
  of a fixed-size key (\<open>malloc\<close> in \<open>FixedCopyKey\<close>), the new bucket array (\<open>calloc\<close> in
  \<open>Rehash\<close>), the vertex array (\<open>realloc\<close> in \<open>VlCopy\<close>), the index array (\<open>realloc\<close>
  in \<open>AddInd\<close>) and the structures a constructor allocates for itself (\<open>obj_malloc\<close>).
\<close>

record env =
  siphash :: "byte list \<Rightarrow> byte list \<Rightarrow> 64 word"
  elem_malloc :: bool
  key_malloc :: bool
  bucket_calloc :: bool
  vert_realloc :: bool
  ind_realloc :: bool
  obj_malloc :: bool

section \<open>Hash table (src/lib/hash.c)\<close>

text \<open>
  \<open>struct element\<close>; \<open>next\<close> is the position in the bucket's chain. \<open>'sk\<close> is what the
  table stores as a key, \<open>'d\<close> the data.
\<close>

record ('sk, 'd) element =
  hash_val :: "64 word"
  key :: 'sk
  data :: 'd

text \<open>\<open>struct hash\<close> without its function pointers and \<open>user\<close>.\<close>

record ('sk, 'd) hash =
  num_buckets :: nat
  num_items :: nat
  buckets :: "('sk, 'd) element list list"
  secret :: "byte list"

text \<open>
  The function pointers of \<open>struct hash\<close>, applied to the \<open>user\<close> state \<open>'u\<close>. \<open>'k\<close> is the
  key a caller passes. \<open>cmp\<close> returns 0 for equal keys. \<open>copy_key\<close> returns \<open>None\<close> for
  \<open>NULL\<close>, and the \<open>user\<close> state it may have changed otherwise; a \<open>NULL\<close> \<open>copy_key\<close> or
  \<open>copy_data\<close> pointer stores the argument itself. \<open>free_key\<close>, \<open>free_data\<close> and \<open>free_user\<close>
  only release memory.
\<close>

record ('u, 'k, 'sk, 'd) hash_funcs =
  hash_func :: "'u \<Rightarrow> byte list \<Rightarrow> 'k \<Rightarrow> 64 word"
  cmp :: "'u \<Rightarrow> 'sk \<Rightarrow> 'k \<Rightarrow> int"
  copy_key :: "'u \<Rightarrow> 'k \<Rightarrow> ('sk \<times> 'u) option"
  copy_data :: "'u \<Rightarrow> 'd \<Rightarrow> 'd option"

text \<open>\<open>Hash_New\<close>: 128 empty buckets, a random \<open>secret\<close> (\<open>sec\<close>); \<open>None\<close> when an
  allocation fails (\<open>ok\<close> false).\<close>

definition Hash_New :: "bool \<Rightarrow> byte list \<Rightarrow> ('sk, 'd) hash option" where
  "Hash_New ok sec =
     (if \<not> ok then None
      else Some \<lparr>num_buckets = 128, num_items = 0, buckets = replicate 128 [], secret = sec\<rparr>)"

text \<open>
  \<open>Find\<close> walks the chain of bucket \<open>hash_val % num_buckets\<close> and returns the address of
  the link to the first element with this hash value and an equal key, or of the final
  \<open>NULL\<close> link: here the bucket and the position in its chain, the chain's length for the
  final link.
\<close>

fun Find_chain ::
  "('u, 'k, 'sk, 'd) hash_funcs \<Rightarrow> 'u \<Rightarrow> 'k \<Rightarrow> 64 word \<Rightarrow> ('sk, 'd) element list \<Rightarrow> nat" where
  "Find_chain F u k hv [] = 0"
| "Find_chain F u k hv (e # es) =
     (if hash_val e = hv \<and> cmp F u (key e) k = 0 then 0
      else Suc (Find_chain F u k hv es))"

definition Find ::
  "('u, 'k, 'sk, 'd) hash_funcs \<Rightarrow> 'u \<Rightarrow> ('sk, 'd) hash \<Rightarrow> 'k \<Rightarrow> 64 word \<Rightarrow> nat \<times> nat" where
  "Find F u h k hv =
     (let bucket = unat hv mod num_buckets h
      in (bucket, Find_chain F u k hv (buckets h ! bucket)))"

text \<open>\<open>Hash_Lookup\<close>: the data of the element found, \<open>None\<close> for \<open>was_found = 0\<close>.\<close>

definition Hash_Lookup ::
  "('u, 'k, 'sk, 'd) hash_funcs \<Rightarrow> 'u \<Rightarrow> ('sk, 'd) hash \<Rightarrow> 'k \<Rightarrow> 'd option" where
  "Hash_Lookup F u h k =
     (let hv = hash_func F u (secret h) k;
          (b, pos) = Find F u h k hv;
          chain = buckets h ! b
      in if pos < length chain then Some (data (chain ! pos)) else None)"

text \<open>
  \<open>Rehash\<close> doubles the bucket array and moves every element, bucket by bucket and in
  chain order, to the head of its new chain. It returns silently, leaving the table as it
  is, when the size would overflow or \<open>calloc\<close> fails.
\<close>

definition Rehash_move :: "nat \<Rightarrow> ('sk, 'd) element list list \<Rightarrow> ('sk, 'd) element
    \<Rightarrow> ('sk, 'd) element list list" where
  "Rehash_move new_num_buckets new_buckets cur =
     (let dest = unat (hash_val cur) mod new_num_buckets
      in new_buckets[dest := cur # new_buckets ! dest])"

definition Rehash :: "env \<Rightarrow> ('sk, 'd) hash \<Rightarrow> ('sk, 'd) hash" where
  "Rehash E h =
     (if num_buckets h > SIZE_MAX div 2 then h
      else let new_num_buckets = num_buckets h * 2
           in if \<not> bucket_calloc E then h
              else h\<lparr>buckets :=
                       foldl (foldl (Rehash_move new_num_buckets))
                         (replicate new_num_buckets []) (buckets h),
                     num_buckets := new_num_buckets\<rparr>)"

text \<open>
  \<open>Hash_Insert\<close> returns the \<open>int\<close> of the source (0: the key was there and its data is
  replaced, 1: a new element, -1: failure), \<open>*key_out\<close>, the table and the \<open>user\<close> state.
  A new element is linked at the end of its chain; the table is rehashed when
  \<open>(num_items >> 1) > num_buckets\<close>, before \<open>num_items\<close> is incremented.
\<close>

definition Hash_Insert ::
  "('u, 'k, 'sk, 'd) hash_funcs \<Rightarrow> env \<Rightarrow> 'u \<Rightarrow> ('sk, 'd) hash \<Rightarrow> 'k \<Rightarrow> 'd
    \<Rightarrow> int \<times> 'sk option \<times> ('sk, 'd) hash \<times> 'u" where
  "Hash_Insert F E u h k d =
     (let hv = hash_func F u (secret h) k;
          (b, pos) = Find F u h k hv;
          chain = buckets h ! b
      in if pos < length chain then
           (case copy_data F u d of
              None \<Rightarrow> (-1, None, h, u)
            | Some new_data \<Rightarrow>
                (0, Some (key (chain ! pos)),
                 h\<lparr>buckets := (buckets h)[b := chain[pos := (chain ! pos)\<lparr>data := new_data\<rparr>]]\<rparr>,
                 u))
         else if \<not> elem_malloc E then (-1, None, h, u)
         else
           (case copy_key F u k of
              None \<Rightarrow> (-1, None, h, u)
            | Some (new_key, u') \<Rightarrow>
                (case copy_data F u' d of
                   None \<Rightarrow> (-1, None, h, u')
                 | Some new_data \<Rightarrow>
                     let h1 = h\<lparr>buckets := (buckets h)[b := chain @
                                 [\<lparr>hash_val = hv, key = new_key, data = new_data\<rparr>]]\<rparr>;
                         h2 = (if num_items h1 div 2 > num_buckets h1 then Rehash E h1 else h1)
                     in (1, Some new_key, h2\<lparr>num_items := num_items h2 + 1\<rparr>, u'))))"

text \<open>\<open>Hash_Clear\<close> empties every bucket; it leaves \<open>num_items\<close> as it is.\<close>

definition Hash_Clear :: "('sk, 'd) hash \<Rightarrow> ('sk, 'd) hash" where
  "Hash_Clear h = h\<lparr>buckets := replicate (num_buckets h) []\<rparr>"

section \<open>Vertex list (src/unnamed/part\_008)\<close>

datatype primative_type = lp_pt_point | lp_pt_line | lp_pt_triangle | lp_pt_unspecified

text \<open>\<open>#define PRESENT ((void *) 1)\<close>\<close>

definition PRESENT :: nat where
  "PRESENT = 1"

text \<open>
  \<open>struct lp_vertex_list\<close>. \<open>vert\<close> holds the \<open>vert_used\<close> vertices in use, each the
  \<open>vert_size\<close> bytes of its floats, and \<open>ind\<close> the \<open>ind_used\<close> indices in use; the slots
  allocated beyond them are never read. \<open>vert_hash\<close> is \<open>None\<close> for \<open>NULL\<close>. The keys the
  hash stores are \<open>index + 1\<close>.
\<close>

record lp_vertex_list =
  floats_per_vert :: nat
  vert_size :: nat
  primative_type :: primative_type
  vert_alloc :: nat
  vert :: "byte list list"
  ind_alloc :: nat
  ind :: "nat list"
  vert_hash :: "(nat, nat) hash option"

definition vert_used :: "lp_vertex_list \<Rightarrow> nat" where
  "vert_used vl = length (vert vl)"

definition ind_used :: "lp_vertex_list \<Rightarrow> nat" where
  "ind_used vl = length (ind vl)"

text \<open>
  The results of the interface: the source returns \<open>UINT_MAX\<close> for every failure and tells
  them apart only in the message it prints. \<open>ERR_NULL\<close> stands for the \<open>NULL\<close> table
  \<open>Hash_Insert\<close> dereferences after \<open>LP_VertexList_Finalize\<close>.
\<close>

datatype vl_error = ERR_RANGE | ERR_FULL | ERR_NOMEM | ERR_HASH | ERR_NULL

definition VlHash :: "env \<Rightarrow> lp_vertex_list \<Rightarrow> byte list \<Rightarrow> byte list \<Rightarrow> 64 word" where
  "VlHash E vl sec k = siphash E sec (take (vert_size vl) k)"

definition VlCmp :: "lp_vertex_list \<Rightarrow> nat \<Rightarrow> byte list \<Rightarrow> int" where
  "VlCmp vl key_a key_b = memcmp (vert vl ! (key_a - 1)) key_b (vert_size vl)"

text \<open>
  \<open>VlCopy\<close> appends the vertex, doubling the array when it is full (up to \<open>UINT_MAX\<close>
  slots), and returns the new \<open>vert_used\<close>. With \<open>vert_size = 0\<close> the source divides by
  zero in the size check; the model fails there.
\<close>

definition VlCopy :: "env \<Rightarrow> lp_vertex_list \<Rightarrow> byte list \<Rightarrow> (nat \<times> lp_vertex_list) option" where
  "VlCopy E vl k =
     (if vert_used vl \<ge> vert_alloc vl then
        (if vert_alloc vl = UINT_MAX then None
         else let new_alloc = (if vert_alloc vl > UINT_MAX div 2 then UINT_MAX
                               else vert_alloc vl * 2)
              in if vert_size vl = 0 then None
                 else if SIZE_MAX div vert_size vl \<le> new_alloc then None
                 else if \<not> vert_realloc E then None
                 else Some (vert_used vl + 1,
                            vl\<lparr>vert := vert vl @ [take (vert_size vl) k],
                               vert_alloc := new_alloc\<rparr>))
      else Some (vert_used vl + 1, vl\<lparr>vert := vert vl @ [take (vert_size vl) k]\<rparr>))"

definition VlFuncs :: "env \<Rightarrow> (lp_vertex_list, byte list, nat, nat) hash_funcs" where
  "VlFuncs E =
     \<lparr>hash_func = VlHash E, cmp = VlCmp, copy_key = VlCopy E, copy_data = (\<lambda>u d. Some d)\<rparr>"

text \<open>\<open>LP_VertexList_New\<close>; \<open>ok\<close> is the outcome of its allocations, \<open>sec\<close> the random
  secret of the hash.\<close>

definition LP_VertexList_New ::
  "bool \<Rightarrow> byte list \<Rightarrow> nat \<Rightarrow> primative_type \<Rightarrow> lp_vertex_list option" where
  "LP_VertexList_New ok sec fpv pt =
     (if SIZE_MAX div sizeof_float < fpv then None
      else if \<not> ok then None
      else Some \<lparr>floats_per_vert = fpv, vert_size = fpv * sizeof_float, primative_type = pt,
                 vert_alloc = 64, vert = [], ind_alloc = 64, ind = [],
                 vert_hash = Hash_New True sec\<rparr>)"

definition LP_VertexList_Clear :: "lp_vertex_list \<Rightarrow> lp_vertex_list" where
  "LP_VertexList_Clear vl = vl\<lparr>vert := [], ind := [], vert_hash := map_option Hash_Clear (vert_hash vl)\<rparr>"

definition LP_VertexList_Finalize :: "lp_vertex_list \<Rightarrow> lp_vertex_list" where
  "LP_VertexList_Finalize vl = vl\<lparr>vert_hash := None\<rparr>"

definition AddVert :: "env \<Rightarrow> lp_vertex_list \<Rightarrow> byte list \<Rightarrow> (vl_error + nat) \<times> lp_vertex_list" where
  "AddVert E vl v =
     (case vert_hash vl of
        None \<Rightarrow> (Inl ERR_NULL, vl)
      | Some h \<Rightarrow>
          (case Hash_Insert (VlFuncs E) E vl h v PRESENT of
             (ret, key_out, h', vl') \<Rightarrow>
               if ret < 0 then (Inl ERR_HASH, vl'\<lparr>vert_hash := Some h'\<rparr>)
               else (Inr (the key_out - 1), vl'\<lparr>vert_hash := Some h'\<rparr>)))"

definition AddInd :: "env \<Rightarrow> lp_vertex_list \<Rightarrow> nat \<Rightarrow> (vl_error + nat) \<times> lp_vertex_list" where
  "AddInd E vl i =
     (if ind_used vl \<ge> ind_alloc vl then
        (if (SIZE_MAX div 4) div 2 < ind_alloc vl then (Inl ERR_FULL, vl)
         else if \<not> ind_realloc E then (Inl ERR_NOMEM, vl)
         else (Inr i, vl\<lparr>ind := ind vl @ [i], ind_alloc := ind_alloc vl * 2\<rparr>))
      else (Inr i, vl\<lparr>ind := ind vl @ [i]\<rparr>))"

definition LP_VertexList_AddIndex ::
  "env \<Rightarrow> lp_vertex_list \<Rightarrow> nat \<Rightarrow> (vl_error + nat) \<times> lp_vertex_list" where
  "LP_VertexList_AddIndex E vl index =
     (if index > vert_used vl then (Inl ERR_RANGE, vl) else AddInd E vl index)"

definition LP_VertexList_Add ::
  "env \<Rightarrow> lp_vertex_list \<Rightarrow> byte list \<Rightarrow> (vl_error + nat) \<times> lp_vertex_list" where
  "LP_VertexList_Add E vl v =
     (case AddVert E vl v of
        (Inl e, vl') \<Rightarrow> (Inl e, vl')
      | (Inr i, vl') \<Rightarrow> LP_VertexList_AddIndex E vl' i)"

text \<open>The value the C function returns: \<open>UINT_MAX\<close> on every error.\<close>

definition c_return :: "vl_error + nat \<Rightarrow> nat" where
  "c_return r = (case r of Inl e \<Rightarrow> UINT_MAX | Inr i \<Rightarrow> i)"

section \<open>Well-formed tables and vertex lists\<close>

definition hash_elems :: "('sk, 'd) hash \<Rightarrow> ('sk, 'd) element set" where
  "hash_elems h = set (concat (buckets h))"

definition dist_ok :: "nat \<Rightarrow> ('sk, 'd) element list list \<Rightarrow> bool" where
  "dist_ok n bs \<longleftrightarrow> 0 < n \<and> length bs = n \<and> (\<forall>b < n. \<forall>e \<in> set (bs ! b). unat (hash_val e) mod n = b)"

definition hash_wf :: "('sk, 'd) hash \<Rightarrow> bool" where
  "hash_wf h \<longleftrightarrow> dist_ok (num_buckets h) (buckets h)"

definition vl_hash_inv :: "env \<Rightarrow> lp_vertex_list \<Rightarrow> (nat, nat) hash \<Rightarrow> bool" where
  "vl_hash_inv E vl h \<longleftrightarrow>
     hash_wf h \<and>
     (\<forall>e \<in> hash_elems h. 1 \<le> key e \<and> key e \<le> vert_used vl \<and> data e = PRESENT \<and>
        hash_val e = siphash E (secret h) (vert vl ! (key e - 1))) \<and>
     (\<forall>i < vert_used vl. \<exists>e \<in> hash_elems h. key e = i + 1)"

definition vl_inv :: "env \<Rightarrow> lp_vertex_list \<Rightarrow> bool" where
  "vl_inv E vl \<longleftrightarrow>
     0 < floats_per_vert vl \<and> vert_size vl = floats_per_vert vl * sizeof_float \<and>
     (\<forall>v \<in> set (vert vl). length v = vert_size vl) \<and> distinct (vert vl) \<and>
     vert_used vl \<le> vert_alloc vl \<and> 0 < vert_alloc vl \<and> vert_alloc vl \<le> UINT_MAX \<and>
     ind_used vl \<le> ind_alloc vl \<and> 0 < ind_alloc vl \<and>
     (case vert_hash vl of None \<Rightarrow> False | Some h \<Rightarrow> vl_hash_inv E vl h)"

definition ind_room :: "env \<Rightarrow> lp_vertex_list \<Rightarrow> bool" where
  "ind_room E vl \<longleftrightarrow>
     ind_used vl < ind_alloc vl \<or> (ind_alloc vl \<le> (SIZE_MAX div 4) div 2 \<and> ind_realloc E)"

definition vert_room :: "env \<Rightarrow> lp_vertex_list \<Rightarrow> bool" where
  "vert_room E vl \<longleftrightarrow>
     elem_malloc E \<and>
     (vert_used vl < vert_alloc vl \<or>
      (vert_alloc vl \<noteq> UINT_MAX \<and>
       (if vert_alloc vl > UINT_MAX div 2 then UINT_MAX else vert_alloc vl * 2)
          < SIZE_MAX div vert_size vl \<and>
       vert_realloc E))"

definition E0 :: env where
  "E0 = \<lparr>siphash = (\<lambda>sec bs. 0), elem_malloc = True, key_malloc = True, bucket_calloc = True,
          vert_realloc = True, ind_realloc = True, obj_malloc = True\<rparr>"

definition vl0 :: lp_vertex_list where
  "vl0 = the (LP_VertexList_New True [] 1 lp_pt_point)"

section \<open>Fixed-size keys (\<open>Hash_NewFixed\<close>, src/lib/hash.c)\<close>

text \<open>
  \<open>FixedHash\<close>, \<open>FixedCmp\<close>, \<open>FixedCopyKey\<close> and \<open>FixedCopyData\<close> for keys of \<open>sz\<close> bytes; the
  \<open>user\<close> state is the constant \<open>size\<close>, so \<open>'u\<close> is \<open>unit\<close>. The key stored is a fresh copy
  of the first \<open>sz\<close> bytes; the data pointer is stored as it is (the callers modelled here
  never store \<open>NULL\<close>).
\<close>

definition FixedFuncs :: "env \<Rightarrow> nat \<Rightarrow> (unit, byte list, byte list, 'd) hash_funcs" where
  "FixedFuncs E sz =
     \<lparr>hash_func = (\<lambda>u sec k. siphash E sec (take sz k)),
      cmp = (\<lambda>u key_a key_b. memcmp key_a key_b sz),
      copy_key = (\<lambda>u k. if key_malloc E then Some (take sz k, u) else None),
      copy_data = (\<lambda>u d. Some d)\<rparr>"

section \<open>Mesh topology: the vertex table (src/unnamed/part\_002)\<close>

text \<open>
  \<open>struct vef\<close>: \<open>verts\<close> maps the 12 bytes of a point to its \<open>struct vert\<close>, which is
  represented by the bytes of its \<open>point\<close>. The edge and face tables and the bounding box
  \<open>min\<close>, \<open>max\<close> are kept together as \<open>others\<close>.
\<close>

record 'r vef =
  verts :: "(byte list, byte list) hash"
  others :: 'r

text \<open>
  \<open>Vert_New\<close> returns the vertex stored for these bytes, or creates it and enters it into
  \<open>verts\<close>; \<open>None\<close> when an allocation fails. (The update of \<open>min\<close> and \<open>max\<close> is part of
  \<open>others\<close>.)
\<close>

definition Vert_New :: "env \<Rightarrow> 'r vef \<Rightarrow> byte list \<Rightarrow> (byte list \<times> 'r vef) option" where
  "Vert_New E vef pt =
     (case Hash_Lookup (FixedFuncs E 12) () (verts vef) pt of
        Some vv \<Rightarrow> Some (vv, vef)
      | None \<Rightarrow>
          if \<not> obj_malloc E then None
          else let vv = take 12 pt
               in case Hash_Insert (FixedFuncs E 12) E () (verts vef) vv vv of
                    (ret, key_out, h', u) \<Rightarrow>
                      if ret < 0 then None else Some (vv, vef\<lparr>verts := h'\<rparr>))"

text \<open>
  \<open>Vef_ConvexInteriorDist\<close> returns the distance and the new \<open>*start\<close>. After computing
  \<open>tol\<close> it looks the point up in \<open>verts\<close> and returns 0 when it is there, with \<open>*start\<close>
  untouched. Everything after that test, the breadth-first search over the faces with
  its own allocations and its \<open>-INFINITY\<close> error result, is the parameter \<open>search\<close>.
\<close>

definition Vef_ConvexInteriorDist ::
  "env \<Rightarrow> ('r vef \<Rightarrow> byte list \<Rightarrow> 's \<Rightarrow> 'f \<times> 's) \<Rightarrow> 'r vef \<Rightarrow> byte list \<Rightarrow> 's \<Rightarrow> ('f::zero) \<times> 's" where
  "Vef_ConvexInteriorDist E search vef pt start =
     (if Hash_Lookup (FixedFuncs E 12) () (verts vef) pt \<noteq> None then (0, start)
      else search vef pt start)"

text \<open>A well-formed table of fixed-size keys, and the points a vef holds as vertices.\<close>

definition fixed_hash_inv :: "env \<Rightarrow> nat \<Rightarrow> (byte list, 'd) hash \<Rightarrow> bool" where
  "fixed_hash_inv E n h \<longleftrightarrow>
     hash_wf h \<and>
     (\<forall>e \<in> hash_elems h. length (key e) = n \<and> hash_val e = siphash E (secret h) (key e))"

definition vef_verts :: "'r vef \<Rightarrow> byte list set" where
  "vef_verts vef = key ` hash_elems (verts vef)"

text \<open>Sample input: an empty vef, the point (1, 2, 3) as little-endian floats, and the vef
  after \<open>Vert_New\<close> of that point.\<close>

definition vef0 :: "unit vef" where
  "vef0 = \<lparr>verts = the (Hash_New True []), others = ()\<rparr>"

definition pt0 :: "byte list" where
  "pt0 = [0, 0, 128, 63, 0, 0, 0, 64, 0, 0, 64, 64]"

definition vef1 :: "unit vef" where
  "vef1 = snd (the (Vert_New E0 vef0 pt0))"

section \<open>Floats\<close>

text \<open>
  A \<open>float\<close> is the value of an IEEE 754 number: NaN, an infinity, the negative zero
  \<open>NZero\<close>, or a real number (\<open>Fin 0\<close> is the positive zero). The values of binary32 (\<open>float\<close>
  in the source) and of binary64 (\<open>double\<close>) are both in this type, the first among the second,
  so a conversion from \<open>float\<close> to \<open>double\<close> is the identity.

  Every operation computes the exact result and rounds it to the nearest value of its format,
  ties to even, with gradual underflow and overflow to infinity: \<open>fround p emin emax\<close>, where
  \<open>p\<close> is the number of fraction bits and \<open>emin\<close>, \<open>emax\<close> bound the exponent. \<open>expo n a\<close> is
  the exponent of \<open>a > 0\<close>, the integer \<open>e\<close> with \<open>2 ^ e \<le> a < 2 ^ (e + 1)\<close>, found in at most \<open>n\<close>
  steps;
  the exponents of both formats are below 2200 in absolute value. Each operation of the
  source on \<open>float\<close> operands is rounded to binary32 on its own (no wider intermediate results,
  no fused multiply-add). Comparisons with NaN are false and the two zeros compare equal;
  \<open>feq\<close> is the \<open>==\<close> of C. The sign and the payload of a NaN are not represented.
\<close>

datatype float = NaN | MInf | NZero | Fin real | PInf

fun fval :: "float \<Rightarrow> real" where
  "fval (Fin a) = a"
| "fval _ = 0"

fun signbit :: "float \<Rightarrow> bool" where
  "signbit MInf = True"
| "signbit NZero = True"
| "signbit (Fin a) = (a < 0)"
| "signbit _ = False"

definition isinf :: "float \<Rightarrow> bool" where
  "isinf x \<longleftrightarrow> x = PInf \<or> x = MInf"

definition pow2 :: "int \<Rightarrow> real" where
  "pow2 e = (if 0 \<le> e then 2 ^ nat e else 1 / 2 ^ nat (- e))"

fun expo :: "nat \<Rightarrow> real \<Rightarrow> int" where
  "expo 0 a = 0"
| "expo (Suc n) a =
     (if 2 \<le> a then expo n (a / 2) + 1 else if a < 1 then expo n (a * 2) - 1 else 0)"

text \<open>Rounding to the nearest integer, ties to even.\<close>

definition rhe :: "real \<Rightarrow> int" where
  "rhe t = (let f = \<lfloor>t\<rfloor>; r = t - of_int f
            in if r < 1 / 2 then f else if 1 / 2 < r then f + 1 else if even f then f else f + 1)"

text \<open>
  The magnitude \<open>a > 0\<close> rounded to a multiple of the unit in the last place of its binade
  (of the least binade below it).
\<close>

definition round_mag :: "nat \<Rightarrow> int \<Rightarrow> real \<Rightarrow> real" where
  "round_mag p emin a =
     (let e = max (expo 2200 a) emin; q = pow2 (e - int p) in of_int (rhe (a / q)) * q)"

definition fround :: "nat \<Rightarrow> int \<Rightarrow> int \<Rightarrow> real \<Rightarrow> float" where
  "fround p emin emax x =
     (if x = 0 then Fin 0
      else let m = round_mag p emin \<bar>x\<bar>
           in if pow2 (emax + 1) \<le> m then (if x < 0 then MInf else PInf)
              else if m = 0 then (if x < 0 then NZero else Fin 0)
              else Fin (if x < 0 then - m else m))"

definition rnd32 :: "real \<Rightarrow> float" where
  "rnd32 = fround 23 (- 126) 127"

definition rnd64 :: "real \<Rightarrow> float" where
  "rnd64 = fround 52 (- 1022) 1023"

text \<open>The result with the sign \<open>s\<close> (set for negative) of a zero or of an infinity.\<close>

definition zero_s :: "bool \<Rightarrow> float" where
  "zero_s s = (if s then NZero else Fin 0)"

definition inf_s :: "bool \<Rightarrow> float" where
  "inf_s s = (if s then MInf else PInf)"

fun fneg :: "float \<Rightarrow> float" where
  "fneg NaN = NaN"
| "fneg MInf = PInf"
| "fneg PInf = MInf"
| "fneg NZero = Fin 0"
| "fneg (Fin a) = (if a = 0 then NZero else Fin (- a))"

fun fabsf :: "float \<Rightarrow> float" where
  "fabsf NaN = NaN"
| "fabsf MInf = PInf"
| "fabsf PInf = PInf"
| "fabsf NZero = Fin 0"
| "fabsf (Fin a) = Fin \<bar>a\<bar>"

text \<open>
  Addition in the format with the rounding \<open>r\<close>: a sum that is exactly zero is the positive
  zero, unless both operands are the negative zero.
\<close>

definition fadd_r :: "(real \<Rightarrow> float) \<Rightarrow> float \<Rightarrow> float \<Rightarrow> float" where
  "fadd_r r x y =
     (if x = NaN \<or> y = NaN then NaN
      else if isinf x then (if isinf y \<and> y \<noteq> x then NaN else x)
      else if isinf y then y
      else if x = NZero \<and> y = NZero then NZero
      else if fval x + fval y = 0 then Fin 0
      else r (fval x + fval y))"

definition fmul_r :: "(real \<Rightarrow> float) \<Rightarrow> float \<Rightarrow> float \<Rightarrow> float" where
  "fmul_r r x y =
     (if x = NaN \<or> y = NaN then NaN
      else if isinf x \<or> isinf y then
        (if (\<not> isinf x \<and> fval x = 0) \<or> (\<not> isinf y \<and> fval y = 0) then NaN
         else inf_s (signbit x \<noteq> signbit y))
      else if fval x * fval y = 0 then zero_s (signbit x \<noteq> signbit y)
      else r (fval x * fval y))"

definition fdiv_r :: "(real \<Rightarrow> float) \<Rightarrow> float \<Rightarrow> float \<Rightarrow> float" where
  "fdiv_r r x y =
     (if x = NaN \<or> y = NaN then NaN
      else if isinf x then (if isinf y then NaN else inf_s (signbit x \<noteq> signbit y))
      else if isinf y then zero_s (signbit x \<noteq> signbit y)
      else if fval y = 0 then (if fval x = 0 then NaN else inf_s (signbit x \<noteq> signbit y))
      else if fval x = 0 then zero_s (signbit x \<noteq> signbit y)
      else r (fval x / fval y))"

definition flt :: "float \<Rightarrow> float \<Rightarrow> bool" where
  "flt x y \<longleftrightarrow>
     x \<noteq> NaN \<and> y \<noteq> NaN \<and> x \<noteq> PInf \<and> y \<noteq> MInf \<and> (x = MInf \<or> y = PInf \<or> fval x < fval y)"

definition fle :: "float \<Rightarrow> float \<Rightarrow> bool" where
  "fle x y \<longleftrightarrow>
     x \<noteq> NaN \<and> y \<noteq> NaN \<and>
     (x = MInf \<or> y = PInf \<or> (x \<noteq> PInf \<and> y \<noteq> MInf \<and> fval x \<le> fval y))"

text \<open>The operators on \<open>float\<close> are those of binary32.\<close>

instantiation float :: "{zero, one, plus, minus, uminus, times, inverse, abs, ord}"
begin

definition zero_float :: float where "zero_float = Fin 0"
definition one_float :: float where "one_float = Fin 1"
definition plus_float :: "float \<Rightarrow> float \<Rightarrow> float" where "plus_float = fadd_r rnd32"
definition uminus_float :: "float \<Rightarrow> float" where "uminus_float = fneg"
definition minus_float :: "float \<Rightarrow> float \<Rightarrow> float" where "minus_float x y = fadd_r rnd32 x (fneg y)"
definition times_float :: "float \<Rightarrow> float \<Rightarrow> float" where "times_float = fmul_r rnd32"
definition divide_float :: "float \<Rightarrow> float \<Rightarrow> float" where "divide_float = fdiv_r rnd32"
definition inverse_float :: "float \<Rightarrow> float" where "inverse_float x = fdiv_r rnd32 (Fin 1) x"
definition abs_float :: "float \<Rightarrow> float" where "abs_float = fabsf"
definition less_float :: "float \<Rightarrow> float \<Rightarrow> bool" where "less_float = flt"
definition less_eq_float :: "float \<Rightarrow> float \<Rightarrow> bool" where "less_eq_float = fle"

instance ..

end

text \<open>\<open>sqrtf\<close> is correctly rounded.\<close>

fun sqrtf :: "float \<Rightarrow> float" where
  "sqrtf (Fin a) = (if a < 0 then NaN else if a = 0 then Fin 0 else rnd32 (sqrt a))"
| "sqrtf PInf = PInf"
| "sqrtf NZero = NZero"
| "sqrtf _ = NaN"

definition copysignf :: "float \<Rightarrow> float \<Rightarrow> float" where
  "copysignf x y = (if signbit y then fneg (fabsf x) else fabsf x)"

definition feq :: "float \<Rightarrow> float \<Rightarrow> bool" where
  "feq x y \<longleftrightarrow> x \<noteq> NaN \<and> y \<noteq> NaN \<and> (if isinf x \<or> isinf y then x = y else fval x = fval y)"

text \<open>
  The \<open>double\<close> operations of the source: the constant \<open>1e-5\<close>, the product of two doubles,
  and the conversion of a double to \<open>float\<close>, which rounds.
\<close>

definition d1e5 :: float where
  "d1e5 = rnd64 (1 / 100000)"

definition dmul :: "float \<Rightarrow> float \<Rightarrow> float" where
  "dmul = fmul_r rnd64"

definition to_float :: "float \<Rightarrow> float" where
  "to_float x = (case x of Fin a \<Rightarrow> (if a = 0 then Fin 0 else rnd32 a) | _ \<Rightarrow> x)"

section \<open>Vector helpers\<close>

text \<open>Vectors are lists of floats read at the indices 0, 1 and 2, as the arrays of the source.\<close>

definition Dot :: "float list \<Rightarrow> float list \<Rightarrow> float" where
  "Dot a b = a ! 0 * b ! 0 + a ! 1 * b ! 1 + a ! 2 * b ! 2"

definition Norm2 :: "float list \<Rightarrow> float" where
  "Norm2 v = Dot v v"

definition Norm :: "float list \<Rightarrow> float" where
  "Norm v = sqrtf (Norm2 v)"

text \<open>\<open>Normalize\<close> scales \<open>v\<close> in place and returns its former length: here the pair.\<close>

definition Normalize :: "float list \<Rightarrow> float list \<times> float" where
  "Normalize v =
     (let nrm = Norm v;
          factor = (if feq nrm 0 then 0 else 1 / nrm)
      in ([v ! 0 * factor, v ! 1 * factor, v ! 2 * factor], nrm))"

definition Dist2 :: "float list \<Rightarrow> float list \<Rightarrow> float" where
  "Dist2 p1 p2 =
     (let x = p1 ! 0 - p2 ! 0; y = p1 ! 1 - p2 ! 1; z = p1 ! 2 - p2 ! 2
      in x * x + y * y + z * z)"

definition Dist :: "float list \<Rightarrow> float list \<Rightarrow> float" where
  "Dist p1 p2 = sqrtf (Dist2 p1 p2)"

definition Cross :: "float list \<Rightarrow> float list \<Rightarrow> float list" where
  "Cross a b =
     [a ! 1 * b ! 2 - a ! 2 * b ! 1,
      a ! 2 * b ! 0 - a ! 0 * b ! 2,
      a ! 0 * b ! 1 - a ! 1 * b ! 0]"

definition BasisVectors :: "float list \<Rightarrow> float list \<times> float list" where
  "BasisVectors nrm =
     (let a0 = \<bar>nrm ! 0\<bar>;
          (imin1, min_val1) = (if \<bar>nrm ! 1\<bar> < a0 then (1, \<bar>nrm ! 1\<bar>) else (0, a0));
          (imax1, max_val1) = (if \<bar>nrm ! 1\<bar> \<ge> a0 then (1, \<bar>nrm ! 1\<bar>) else (0, a0));
          (imin2, min_val2) = (if \<bar>nrm ! 2\<bar> < min_val1 then (2, \<bar>nrm ! 2\<bar>) else (imin1, min_val1));
          (imax2, max_val2) = (if \<bar>nrm ! 2\<bar> \<ge> max_val1 then (2, \<bar>nrm ! 2\<bar>) else (imax1, max_val1));
          imin = (if imax2 = imin2 then (imax2 + 1) mod 3 else imin2);
          imax = imax2;
          yy0 = [nrm ! 0, nrm ! 1, nrm ! 2];
          yy1 = yy0[imin := copysignf (nrm ! imax) (- (nrm ! imin))];
          yy = yy1[imax := copysignf (nrm ! imin) (- (nrm ! imax))];
          result_x = fst (Normalize (Cross yy nrm));
          result_y = fst (Normalize (Cross nrm result_x))
      in (result_x, result_y))"

definition PlaneNorm :: "float list \<Rightarrow> float list \<Rightarrow> float list \<Rightarrow> float list" where
  "PlaneNorm p1 p2 p3 =
     (let v1 = [p2 ! 0 - p1 ! 0, p2 ! 1 - p1 ! 1, p2 ! 2 - p1 ! 2];
          v2 = [p3 ! 0 - p2 ! 0, p3 ! 1 - p2 ! 1, p3 ! 2 - p2 ! 2]
      in fst (Normalize (Cross v1 v2)))"

section \<open>Aggregation BVH (\<open>bvh_vl.c\<close>, in src/lib/file\_obj.c)\<close>

text \<open>
  \<open>struct bvh_node\<close>; \<open>a\<close>, \<open>b\<close> and \<open>points\<close> are \<open>None\<close> for \<open>NULL\<close>. A point is the array of
  floats a \<open>float *\<close> into the vertex array points to. \<open>BNode_New\<close> starts the box at
  \<open>min = INFINITY\<close>, \<open>max = -INFINITY\<close>. The arrays of points are allocated with room for
  every point of the parent, so \<open>Array_Add\<close> appends without reallocating.

  The \<open>ftree\<close> of \<open>Split_BNode\<close> is only asked for the key of its median: it is
  represented by the in-order sequence of its keys. \<open>Place\<close> descends to the left when
  \<open>key < cur_key\<close> and to the right otherwise, rotations keep the in-order sequence, and
  \<open>FTree_Median\<close> returns the node of rank \<open>ItemCount / 2\<close>.

  \<open>Split_BNode\<close> is recursive without a bound the source states, so the model takes fuel
  and returns \<open>None\<close> when it runs out (or when \<open>points\<close> is \<open>NULL\<close>, which the source
  dereferences). The results of the two recursive calls are ignored, as in the source.
  \<open>Split_bounds\<close> is the body of the loop over \<open>count\<close> in \<open>Split_BNode\<close>, \<open>BvhVl_bounds\<close> the
  one in \<open>BvhVl_New\<close>. \<open>BvhVl_New\<close> returns the root; the inner \<open>None\<close> is \<open>NULL\<close>.
\<close>

datatype bvh_axis = x_axis | y_axis | z_axis

fun axis_index :: "bvh_axis \<Rightarrow> nat" where
  "axis_index x_axis = 0"
| "axis_index y_axis = 1"
| "axis_index z_axis = 2"

datatype bvh_node =
  BNode (node_axis: bvh_axis) (node_min: "float list") (node_max: "float list")
        (node_a: "bvh_node option") (node_b: "bvh_node option")
        (node_points: "float list list option")

definition BNode_New :: bvh_node where
  "BNode_New = BNode x_axis [PInf, PInf, PInf] [MInf, MInf, MInf] None None (Some [])"

fun FTree_Insert_key :: "float \<Rightarrow> float list \<Rightarrow> float list" where
  "FTree_Insert_key k [] = [k]"
| "FTree_Insert_key k (cur_key # rest) =
     (if k < cur_key then k # cur_key # rest else cur_key # FTree_Insert_key k rest)"

definition FTree_Median_key :: "float list \<Rightarrow> float" where
  "FTree_Median_key keys = keys ! (length keys div 2)"

definition Split_bounds :: "nat \<Rightarrow> float list \<Rightarrow> bvh_node \<Rightarrow> nat \<Rightarrow> bvh_node" where
  "Split_bounds axis vt nn count =
     (let n1 = (if vt ! count < node_min nn ! count
                then BNode (node_axis nn) ((node_min nn)[count := vt ! count]) (node_max nn)
                       (node_a nn) (node_b nn) (node_points nn)
                else nn)
      in if vt ! axis > node_max n1 ! count
         then BNode (node_axis n1) (node_min n1) ((node_max n1)[count := vt ! count])
                (node_a n1) (node_b n1) (node_points n1)
         else n1)"

definition Array_Add_point :: "bvh_node \<Rightarrow> float list \<Rightarrow> bvh_node" where
  "Array_Add_point nn vt =
     BNode (node_axis nn) (node_min nn) (node_max nn) (node_a nn) (node_b nn)
       (map_option (\<lambda>ps. ps @ [vt]) (node_points nn))"

definition Split_place :: "nat \<Rightarrow> float \<Rightarrow> bvh_node \<times> bvh_node \<Rightarrow> float list \<Rightarrow> bvh_node \<times> bvh_node" where
  "Split_place axis median ab vt =
     (if vt ! axis \<le> median
      then (foldl (Split_bounds axis vt) (Array_Add_point (fst ab) vt) [0, 1, 2], snd ab)
      else (fst ab, foldl (Split_bounds axis vt) (Array_Add_point (snd ab) vt) [0, 1, 2]))"

fun Split_BNode :: "nat \<Rightarrow> env \<Rightarrow> bvh_node \<Rightarrow> float \<Rightarrow> (int \<times> bvh_node) option" where
  "Split_BNode 0 E node thresh = None"
| "Split_BNode (Suc fuel) E node thresh =
     (case node_points node of
        None \<Rightarrow> None
      | Some pts \<Rightarrow>
          if length pts < 4 then Some (0, node)
          else
            let rng = map (\<lambda>i. node_max node ! i - node_min node ! i) [0, 1, 2];
                axis = (if rng ! 0 \<ge> rng ! 1 \<and> rng ! 0 \<ge> rng ! 2 then x_axis
                        else if rng ! 1 \<ge> rng ! 2 then y_axis else z_axis);
                ax = axis_index axis;
                node1 = BNode axis (node_min node) (node_max node) (node_a node) (node_b node)
                          (node_points node)
            in if rng ! ax < thresh then Some (0, node1)
               else if \<not> obj_malloc E then Some (-1, node1)
               else
                 let ftree = foldl (\<lambda>t p. FTree_Insert_key (p ! ax) t) [] pts;
                     median0 = FTree_Median_key ftree;
                     median = (if feq median0 (node_max node ! ax) \<or> feq median0 (node_min node ! ax)
                               then Fin (1 / 2) * (node_max node ! ax + node_min node ! ax)
                               else median0);
                     ab = foldl (Split_place ax median) (BNode_New, BNode_New) pts
                 in (case Split_BNode fuel E (fst ab) thresh of
                       None \<Rightarrow> None
                     | Some (ra, a') \<Rightarrow>
                         (case Split_BNode fuel E (snd ab) thresh of
                            None \<Rightarrow> None
                          | Some (rb, b') \<Rightarrow>
                              Some (0, BNode axis (node_min node) (node_max node)
                                         (Some a') (Some b') None))))"

definition BvhVl_bounds :: "float list \<Rightarrow> bvh_node \<Rightarrow> nat \<Rightarrow> bvh_node" where
  "BvhVl_bounds vt node count =
     (let n1 = (if vt ! count < node_min node ! count
                then BNode (node_axis node) ((node_min node)[count := vt ! count]) (node_max node)
                       (node_a node) (node_b node) (node_points node)
                else node)
      in if vt ! count > node_max n1 ! count
         then BNode (node_axis n1) (node_min n1) ((node_max n1)[count := vt ! count])
                (node_a n1) (node_b n1) (node_points n1)
         else n1)"

definition BvhVl_New :: "nat \<Rightarrow> env \<Rightarrow> float list list \<Rightarrow> float \<Rightarrow> bvh_node option option" where
  "BvhVl_New fuel E vts thresh =
     (if \<not> obj_malloc E then Some None
      else let node = foldl (\<lambda>n vt. Array_Add_point (foldl (BvhVl_bounds vt) n [0, 1, 2]) vt)
                        BNode_New vts
           in case Split_BNode fuel E node thresh of
                None \<Rightarrow> None
              | Some (r, node') \<Rightarrow> if r < 0 then Some None else Some (Some node'))"

text \<open>
  The property of claim C9: the box of every node bounds every point stored in its subtree.
\<close>

fun subtree_points :: "bvh_node \<Rightarrow> float list list" where
  "subtree_points (BNode ax mn mx a b pts) =
     (case pts of None \<Rightarrow> [] | Some ps \<Rightarrow> ps) @
     (case a of None \<Rightarrow> [] | Some n \<Rightarrow> subtree_points n) @
     (case b of None \<Rightarrow> [] | Some n \<Rightarrow> subtree_points n)"

fun bounds_ok :: "bvh_node \<Rightarrow> bool" where
  "bounds_ok (BNode ax mn mx a b pts) =
     ((\<forall>p \<in> set (subtree_points (BNode ax mn mx a b pts)). \<forall>i \<in> {0, 1, 2}. mn ! i \<le> p ! i \<and> p ! i \<le> mx ! i) \<and>
      (case a of None \<Rightarrow> True | Some n \<Rightarrow> bounds_ok n) \<and>
      (case b of None \<Rightarrow> True | Some n \<Rightarrow> bounds_ok n))"

text \<open>Sample input: four points, two on each side of the median plane.\<close>

definition pts9 :: "float list list" where
  "pts9 = [[Fin 0, Fin 0, Fin 0], [Fin 0, Fin 1, Fin 0], [Fin 10, Fin 0, Fin 0], [Fin 10, Fin 1, Fin 0]]"

text \<open>The root \<open>BvhVl_New\<close> builds for them, its two children after the split, and the
  tree returned: the box of the first child does not reach the point (0, 1, 0) it holds.\<close>

definition root9 :: bvh_node where
  "root9 = BNode x_axis [Fin 0, Fin 0, Fin 0] [Fin 10, Fin 1, Fin 0] None None (Some pts9)"
definition a9 :: bvh_node where
  "a9 = BNode x_axis [Fin 0, Fin 0, Fin 0] [Fin 0, Fin 0, Fin 0] None None
          (Some [[Fin 0, Fin 0, Fin 0], [Fin 0, Fin 1, Fin 0]])"
definition b9 :: bvh_node where
  "b9 = BNode x_axis [Fin 10, Fin 0, Fin 0] [Fin 10, Fin 1, Fin 0] None
          None (Some [[Fin 10, Fin 0, Fin 0], [Fin 10, Fin 1, Fin 0]])"

definition bvh9 :: bvh_node where
  "bvh9 = BNode x_axis [Fin 0, Fin 0, Fin 0] [Fin 10, Fin 1, Fin 0]
      (Some
        (BNode x_axis [Fin 0, Fin 0, Fin 0] [Fin 0, Fin 0, Fin 0] None None
          (Some [[Fin 0, Fin 0, Fin 0], [Fin 0, Fin 1, Fin 0]])))
      (Some
        (BNode x_axis [Fin 10, Fin 0, Fin 0] [Fin 10, Fin 1, Fin 0] None
          None (Some [[Fin 10, Fin 0, Fin 0], [Fin 10, Fin 1, Fin 0]])))
      None"

section \<open>Plane cut\<close>

text \<open>
  The plane of \<open>LP_PlaneCut\<close>: the normal given by the caller is copied and normalised, the
  distance is kept as given, and the two in-plane axes come from \<open>BasisVectors\<close>.
\<close>

record plane =
  plane_norm :: "float list"
  plane_x_axis :: "float list"
  plane_y_axis :: "float list"
  plane_dist :: float

definition PlaneCut_plane :: "float list \<Rightarrow> float \<Rightarrow> plane" where
  "PlaneCut_plane nrm d =
     (let n = fst (Normalize [nrm ! 0, nrm ! 1, nrm ! 2]);
          xy = BasisVectors n
      in \<lparr>plane_norm = n, plane_x_axis = fst xy, plane_y_axis = snd xy, plane_dist = d\<rparr>)"

text \<open>
  \<open>Vert_New\<close> of plane_cut.c, without the lookup: the vertex created for a point. Without a
  plane (the vertices of the two output shapes) the distance stays 0.
\<close>

record pc_vert =
  point :: "float list"
  vert_dist :: float

definition PC_Vert_New :: "float list \<Rightarrow> plane option \<Rightarrow> pc_vert" where
  "PC_Vert_New pt pl =
     (case pl of
        None \<Rightarrow> \<lparr>point = [pt ! 0, pt ! 1, pt ! 2], vert_dist = 0\<rparr>
      | Some p \<Rightarrow>
          let tol0 = Norm pt;
              tol1 = (if \<bar>plane_dist p\<bar> > tol0 then \<bar>plane_dist p\<bar> else tol0);
              tol = to_float (dmul tol1 d1e5);
              d = Dot pt (plane_norm p) - plane_dist p
          in \<lparr>point = [pt ! 0, pt ! 1, pt ! 2],
              vert_dist = (if \<bar>d\<bar> < tol then 0 else d)\<rparr>)"

text \<open>\<open>Edge_New\<close>, without the lookup: the edge created between two vertices.\<close>

record pc_edge =
  edge_vert :: "pc_vert \<times> pc_vert"
  inter :: "float list"
  inter_vld :: bool

definition PC_Edge_New :: "pc_vert \<Rightarrow> pc_vert \<Rightarrow> plane option \<Rightarrow> pc_edge" where
  "PC_Edge_New v1 v2 pl =
     (if pl \<noteq> None \<and>
         ((vert_dist v1 > 0 \<and> vert_dist v2 < 0) \<or> (vert_dist v1 < 0 \<and> vert_dist v2 > 0))
      then let x = - vert_dist v1 / (vert_dist v2 - vert_dist v1);
               y = 1 - x
           in \<lparr>edge_vert = (v1, v2),
               inter = [y * point v1 ! 0 + x * point v2 ! 0,
                        y * point v1 ! 1 + x * point v2 ! 1,
                        y * point v1 ! 2 + x * point v2 ! 2],
               inter_vld = True\<rparr>
      else \<lparr>edge_vert = (v1, v2), inter = [0, 0, 0], inter_vld = False\<rparr>)"


text \<open>
  \<open>shape[2]\<close> holds the vertices and edges of the input triangles. Its hash tables are
  lists in order of insertion: a vertex is found by the three floats of its point (the key is
  their bytes, so the two zeros are different keys), an edge by its two vertices in either
  order (it is entered in the edge table of both).
\<close>

record pc_shape =
  shape_verts :: "pc_vert list"
  shape_edges :: "pc_edge list"

definition Shape_Vert_New :: "float list \<Rightarrow> plane option \<Rightarrow> pc_shape \<Rightarrow> pc_vert \<times> pc_shape" where
  "Shape_Vert_New pt pl sh =
     (case find (\<lambda>v. point v = [pt ! 0, pt ! 1, pt ! 2]) (shape_verts sh) of
        Some v \<Rightarrow> (v, sh)
      | None \<Rightarrow> (PC_Vert_New pt pl, sh\<lparr>shape_verts := shape_verts sh @ [PC_Vert_New pt pl]\<rparr>))"

definition Shape_Edge_New :: "pc_vert \<Rightarrow> pc_vert \<Rightarrow> plane option \<Rightarrow> pc_shape \<Rightarrow> pc_edge \<times> pc_shape" where
  "Shape_Edge_New v1 v2 pl sh =
     (case find (\<lambda>e. edge_vert e = (v1, v2) \<or> edge_vert e = (v2, v1)) (shape_edges sh) of
        Some e \<Rightarrow> (e, sh)
      | None \<Rightarrow> (PC_Edge_New v1 v2 pl, sh\<lparr>shape_edges := shape_edges sh @ [PC_Edge_New v1 v2 pl]\<rparr>))"

text \<open>
  What \<open>Make_Faces\<close> writes to the two output shapes, in order: \<open>Face_New s a b c\<close> adds
  the triangle to shape \<open>s\<close>, \<open>Add2dPoint s p\<close> records \<open>p\<close> in the 2-D outline of
  shape \<open>s\<close>, \<open>Toggle_edge2d s p q\<close> toggles the edge in its set of on-plane edges.
\<close>

datatype pc_op =
  Face_New nat "float list" "float list" "float list"
| Add2dPoint nat "float list"
| Toggle_edge2d nat "float list" "float list"

definition side_of :: "pc_vert \<Rightarrow> nat" where
  "side_of v = (if vert_dist v > 0 then 1 else 0)"

definition Make_Quad :: "float list \<Rightarrow> float list \<Rightarrow> float list \<Rightarrow> float list \<Rightarrow> nat \<Rightarrow> pc_op list" where
  "Make_Quad p1 p2 p3 p4 sh =
     (if Dist2 p1 p3 > Dist2 p2 p4 then [Face_New sh p2 p3 p4, Face_New sh p1 p2 p4]
      else [Face_New sh p1 p3 p4, Face_New sh p1 p2 p3])"

definition on_plane :: "pc_vert \<Rightarrow> bool" where
  "on_plane v = feq (vert_dist v) 0"

definition Make_Faces_lookup ::
  "plane \<Rightarrow> pc_shape \<Rightarrow> float list \<Rightarrow> float list \<Rightarrow> float list
    \<Rightarrow> pc_vert list \<times> pc_edge list \<times> pc_shape" where
  "Make_Faces_lookup pl sh0 p1 p2 p3 =
     (let (va, sh1) = Shape_Vert_New p1 (Some pl) sh0;
          (vb, sh2) = Shape_Vert_New p2 (Some pl) sh1;
          (vc, sh3) = Shape_Vert_New p3 (Some pl) sh2;
          (ea, sh4) = Shape_Edge_New va vb (Some pl) sh3;
          (eb, sh5) = Shape_Edge_New vb vc (Some pl) sh4;
          (ec, sh6) = Shape_Edge_New vc va (Some pl) sh5
      in ([va, vb, vc], [ea, eb, ec], sh6))"

definition Make_Faces_switch ::
  "float list list \<Rightarrow> pc_vert list \<Rightarrow> pc_edge list \<Rightarrow> int \<times> pc_op list" where
  "Make_Faces_switch pt v e =
     (let n_inter = length (filter inter_vld e);
          n_on = length (filter on_plane v)
      in if n_inter = 0 then
           (if n_on = 0 \<or> n_on = 1 then
              let non1 = (if \<not> on_plane (v ! 0) then 0 else 1)
              in (0, [Face_New (side_of (v ! non1)) (pt ! 0) (pt ! 1) (pt ! 2)])
            else if n_on = 2 then
              let non1 = (if \<not> on_plane (v ! 0) then 0 else if \<not> on_plane (v ! 1) then 1 else 2);
                  i1 = (non1 + 1) mod 3;
                  i2 = (non1 + 2) mod 3;
                  ss = side_of (v ! non1)
              in (0, [Face_New ss (pt ! 0) (pt ! 1) (pt ! 2), Toggle_edge2d ss (pt ! i1) (pt ! i2)])
            else (0, []))
         else if n_inter = 1 then
           let i1 = (if inter_vld (e ! 0) then 0 else if inter_vld (e ! 1) then 1 else 2);
               non1 = (i1 + 1) mod 3;
               non2 = (i1 + 2) mod 3
           in if \<not> on_plane (v ! non2) then (-1, [])
              else (0, [Add2dPoint 0 (inter (e ! i1)), Add2dPoint 1 (inter (e ! i1)),
                        Add2dPoint 0 (point (v ! non2)), Add2dPoint 1 (point (v ! non2)),
                        Face_New (side_of (v ! non1)) (point (v ! non1)) (point (v ! non2)) (inter (e ! i1)),
                        Face_New (side_of (v ! i1)) (point (v ! non2)) (point (v ! i1)) (inter (e ! i1))])
         else if n_inter = 2 then
           let non1 = (if \<not> inter_vld (e ! 0) then 0 else if \<not> inter_vld (e ! 1) then 1 else 2);
               i1 = (non1 + 1) mod 3;
               i2 = (non1 + 2) mod 3
           in (0, [Add2dPoint 0 (inter (e ! i1)), Add2dPoint 1 (inter (e ! i1)),
                   Add2dPoint 0 (inter (e ! i2)), Add2dPoint 1 (inter (e ! i2)),
                   Face_New (side_of (v ! i2)) (point (v ! i2)) (inter (e ! i2)) (inter (e ! i1))] @
                  Make_Quad (point (v ! non1)) (point (v ! i1)) (inter (e ! i1)) (inter (e ! i2))
                    (side_of (v ! i1)))
         else (-1, []))"

text \<open>
  \<open>Make_Faces\<close> for one input triangle. Every allocation it makes (vertices, edges, faces,
  hash entries) succeeds or fails with \<open>obj_malloc\<close>; a failed allocation returns -1.
\<close>

definition Make_Faces ::
  "env \<Rightarrow> plane \<Rightarrow> pc_shape \<Rightarrow> float list \<Rightarrow> float list \<Rightarrow> float list
    \<Rightarrow> int \<times> pc_op list \<times> pc_shape" where
  "Make_Faces E pl sh0 p1 p2 p3 =
     (if \<not> obj_malloc E then (-1, [], sh0)
      else case Make_Faces_lookup pl sh0 p1 p2 p3 of
        (v, e, sh) \<Rightarrow> (case Make_Faces_switch [p1, p2, p3] v e of (ret, ops) \<Rightarrow> (ret, ops, sh)))"

definition shape_empty :: pc_shape where
  "shape_empty = \<lparr>shape_verts = [], shape_edges = []\<rparr>"

text \<open>
  The loop of \<open>LP_PlaneCut\<close> over the input triangles (the index array read three entries
  at a time); it stops at the first triangle on which \<open>Make_Faces\<close> fails.
\<close>

fun Make_Faces_loop ::
  "env \<Rightarrow> plane \<Rightarrow> (float list \<times> float list \<times> float list) list \<Rightarrow> pc_shape
    \<Rightarrow> (pc_op list \<times> pc_shape) option" where
  "Make_Faces_loop E pl [] sh = Some ([], sh)"
| "Make_Faces_loop E pl ((p1, p2, p3) # rest) sh =
     (case Make_Faces E pl sh p1 p2 p3 of
        (ret, ops, sh') \<Rightarrow>
          if ret < 0 then None
          else (case Make_Faces_loop E pl rest sh' of
                  None \<Rightarrow> None
                | Some (ops', sh'') \<Rightarrow> Some (ops @ ops', sh'')))"

text \<open>
  The first phase of \<open>LP_PlaneCut\<close>: the plane is set up and \<open>Make_Faces\<close> runs on
  every triangle of the input, from the empty \<open>shape[2]\<close>.
\<close>

definition LP_PlaneCut_faces ::
  "env \<Rightarrow> float list \<Rightarrow> float \<Rightarrow> (float list \<times> float list \<times> float list) list
    \<Rightarrow> (pc_op list \<times> pc_shape) option" where
  "LP_PlaneCut_faces E nrm d tris = Make_Faces_loop E (PlaneCut_plane nrm d) tris shape_empty"

subsection \<open>What the cut is expected to compute\<close>

text \<open>
  In the arithmetic of the code. \<open>scaled_normal n\<close> is \<open>n\<close> scaled by \<open>1 / |n|\<close>, by 0 when
  the length computes to 0. \<open>cut_dist m d v\<close> is the distance \<open>v \<cdot> m - d\<close> of \<open>v\<close>
  to the plane \<open>(m, d)\<close>, set to 0 when it is below \<open>1e-5 \<cdot> max(|v|, |d|)\<close>, a product of
  doubles converted to \<open>float\<close>. \<open>cut_point\<close> is the point \<open>(1 - x) \<cdot> v0 + x \<cdot> v1\<close> and
  \<open>point_claimed\<close> the point \<open>v0 + x \<cdot> (v1 - v0)\<close>, with
  \<open>x = - v0.dist / (v1.dist - v0.dist)\<close>.
\<close>

definition scaled_normal :: "float list \<Rightarrow> float list" where
  "scaled_normal n =
     (let l = sqrtf (n ! 0 * n ! 0 + n ! 1 * n ! 1 + n ! 2 * n ! 2);
          f = (if feq l 0 then 0 else 1 / l)
      in [n ! 0 * f, n ! 1 * f, n ! 2 * f])"

definition cut_dist :: "float list \<Rightarrow> float \<Rightarrow> float list \<Rightarrow> float" where
  "cut_dist m d v =
     (let s = (v ! 0 * m ! 0 + v ! 1 * m ! 1 + v ! 2 * m ! 2) - d;
          l = sqrtf (v ! 0 * v ! 0 + v ! 1 * v ! 1 + v ! 2 * v ! 2);
          mx = (if \<bar>d\<bar> > l then \<bar>d\<bar> else l)
      in if \<bar>s\<bar> < to_float (dmul mx d1e5) then 0 else s)"

definition cut_vert :: "float list \<Rightarrow> float \<Rightarrow> float list \<Rightarrow> pc_vert" where
  "cut_vert m d v = \<lparr>point = [v ! 0, v ! 1, v ! 2], vert_dist = cut_dist m d v\<rparr>"

definition cut_point :: "pc_vert \<Rightarrow> pc_vert \<Rightarrow> float list" where
  "cut_point v0 v1 =
     (let x = - vert_dist v0 / (vert_dist v1 - vert_dist v0)
      in [(1 - x) * point v0 ! 0 + x * point v1 ! 0,
          (1 - x) * point v0 ! 1 + x * point v1 ! 1,
          (1 - x) * point v0 ! 2 + x * point v1 ! 2])"

definition point_claimed :: "pc_vert \<Rightarrow> pc_vert \<Rightarrow> float list" where
  "point_claimed v0 v1 =
     (let x = - vert_dist v0 / (vert_dist v1 - vert_dist v0)
      in [point v0 ! 0 + x * (point v1 ! 0 - point v0 ! 0),
          point v0 ! 1 + x * (point v1 ! 1 - point v0 ! 1),
          point v0 ! 2 + x * (point v1 ! 2 - point v0 ! 2)])"

definition straddle :: "pc_vert \<Rightarrow> pc_vert \<Rightarrow> bool" where
  "straddle v1 v2 \<longleftrightarrow>
     (vert_dist v1 > 0 \<and> vert_dist v2 < 0) \<or> (vert_dist v1 < 0 \<and> vert_dist v2 > 0)"

definition op_side_point :: "nat \<Rightarrow> float list \<Rightarrow> pc_op \<Rightarrow> bool" where
  "op_side_point s q op =
     (case op of Face_New s' a b c \<Rightarrow> s' = s \<and> (q = a \<or> q = b \<or> q = c) | _ \<Rightarrow> False)"

text \<open>
  The point \<open>q\<close> has reached both output shapes: it is in the outline of both, and each has
  a face with \<open>q\<close> as a corner.
\<close>

definition edge_done :: "pc_op list \<Rightarrow> float list \<Rightarrow> bool" where
  "edge_done ops q \<longleftrightarrow>
     Add2dPoint 0 q \<in> set ops \<and> Add2dPoint 1 q \<in> set ops \<and>
     (\<exists>op \<in> set ops. op_side_point 0 q op) \<and> (\<exists>op \<in> set ops. op_side_point 1 q op)"

text \<open>
  The edge \<open>e\<close> as the claim describes it: it has an intersection point exactly when the
  distances of its two vertices have strictly opposite signs, and then that point is
  \<open>cut_point\<close> of its vertices and has reached both output shapes.
\<close>

definition cut_edge_ok :: "pc_op list \<Rightarrow> pc_edge \<Rightarrow> bool" where
  "cut_edge_ok ops e \<longleftrightarrow>
     inter_vld e = straddle (fst (edge_vert e)) (snd (edge_vert e)) \<and>
     (inter_vld e \<longrightarrow>
        inter e = cut_point (fst (edge_vert e)) (snd (edge_vert e)) \<and> edge_done ops (inter e))"

text \<open>The shape holds such an edge between the vertices \<open>u\<close> and \<open>w\<close>, in one of the two orders.\<close>

definition cut_edge_in :: "pc_op list \<Rightarrow> pc_shape \<Rightarrow> pc_vert \<Rightarrow> pc_vert \<Rightarrow> bool" where
  "cut_edge_in ops sh u w \<longleftrightarrow>
     (\<exists>e \<in> set (shape_edges sh).
        (edge_vert e = (u, w) \<or> edge_vert e = (w, u)) \<and> cut_edge_ok ops e)"

text \<open>
  The input triangle \<open>t\<close> has been entered: the shape holds the vertex of each of its corners,
  with the distance \<open>cut_dist\<close>, and an edge for each of its sides.
\<close>

definition cut_tri_ok ::
  "float list \<Rightarrow> float \<Rightarrow> pc_op list \<Rightarrow> pc_shape \<Rightarrow> float list \<times> float list \<times> float list \<Rightarrow> bool" where
  "cut_tri_ok m d ops sh t =
     (case t of (p1, p2, p3) \<Rightarrow>
        let a = cut_vert m d p1; b = cut_vert m d p2; c = cut_vert m d p3
        in a \<in> set (shape_verts sh) \<and> b \<in> set (shape_verts sh) \<and> c \<in> set (shape_verts sh) \<and>
           cut_edge_in ops sh a b \<and> cut_edge_in ops sh b c \<and> cut_edge_in ops sh c a)"

definition vinv :: "float list \<Rightarrow> float \<Rightarrow> pc_shape \<Rightarrow> bool" where
  "vinv m d sh \<longleftrightarrow> (\<forall>v \<in> set (shape_verts sh). v = cut_vert m d (point v))"

definition einv :: "plane \<Rightarrow> pc_shape \<Rightarrow> bool" where
  "einv pl sh \<longleftrightarrow>
     (\<forall>e \<in> set (shape_edges sh). e = PC_Edge_New (fst (edge_vert e)) (snd (edge_vert e)) (Some pl))"

text \<open>
  Sample input: one triangle across the plane z = 1, given with a normal of length 2. Two of
  its sides cross the plane.
\<close>

definition n5 :: "float list" where
  "n5 = [Fin 0, Fin 0, Fin 2]"

definition tri5 :: "float list \<times> float list \<times> float list" where
  "tri5 = ([Fin (- 1), Fin 0, Fin 0], [Fin 2, Fin 6, Fin 3], [Fin 0, Fin 1, Fin 0])"

definition v5a :: pc_vert where
  "v5a = \<lparr>point = [Fin (- 1), Fin 0, Fin 0], vert_dist = Fin (- 1)\<rparr>"

definition v5b :: pc_vert where
  "v5b = \<lparr>point = [Fin 2, Fin 6, Fin 3], vert_dist = Fin 2\<rparr>"

definition v5c :: pc_vert where
  "v5c = \<lparr>point = [Fin 0, Fin 1, Fin 0], vert_dist = Fin (- 1)\<rparr>"

definition q5a :: "float list" where
  "q5a = [Fin (1 / 16777216), Fin 2, Fin 1]"

definition q5b :: "float list" where
  "q5b = [Fin (5592405 / 8388608), Fin (5592405 / 2097152), Fin (16777215 / 16777216)]"

definition e5a :: pc_edge where
  "e5a = \<lparr>edge_vert = (v5a, v5b), inter = q5a, inter_vld = True\<rparr>"

definition e5b :: pc_edge where
  "e5b = \<lparr>edge_vert = (v5b, v5c), inter = q5b, inter_vld = True\<rparr>"

definition e5c :: pc_edge where
  "e5c = \<lparr>edge_vert = (v5c, v5a), inter = [Fin 0, Fin 0, Fin 0], inter_vld = False\<rparr>"

definition ops5 :: "pc_op list" where
  "ops5 = [Add2dPoint 0 q5a, Add2dPoint 1 q5a, Add2dPoint 0 q5b, Add2dPoint 1 q5b,
           Face_New 1 [Fin 2, Fin 6, Fin 3] q5b q5a,
           Face_New 0 [Fin 0, Fin 1, Fin 0] q5a q5b,
           Face_New 0 [Fin 0, Fin 1, Fin 0] [Fin (- 1), Fin 0, Fin 0] q5a]"

definition shape5 :: pc_shape where
  "shape5 = \<lparr>shape_verts = [v5a, v5b, v5c], shape_edges = [e5a, e5b, e5c]\<rparr>"

section \<open>Plane cut: the whole call\<close>

text \<open>
  \<open>LP_PlaneCut\<close> from its first line to its return, as a sequence of calls on the memory
  the call owns. That memory is the set of the blocks it has allocated and not yet freed:
  the three shapes, the triangulation of a side, the iterator over the faces of a side, the
  polyhedra \<open>poly3d\<close> and the nodes of the output list, a polyhedron and a node being named
  by the side and the position in the iteration. The output list \<open>out\<close> is the list of the
  polyhedra appended to it. The input is read through a pointer to \<open>const\<close>; it is handed
  back with the result.

  The first loop is \<open>LP_PlaneCut_faces\<close>. The calls after it are not followed into the
  geometry: whether \<open>Shape_New\<close>, \<open>AddEdge2d\<close>, \<open>Make_Face_From_2d\<close>,
  \<open>Hash_IteratorNew\<close>, \<open>LP_VertexList_New\<close>, \<open>Build_Poly3d\<close> and
  \<open>LP_VertexList_ListAppend\<close> succeed, what \<open>LP_Triangulate2D\<close> returns for a side (the
  number of its triangles, \<open>None\<close> for \<open>NULL\<close>) and how many faces the iteration over a
  side finds not yet visited are read from the record \<open>cut_calls\<close>.
\<close>

datatype cut_block =
  Shape_blk nat
| Tri_blk nat
| Iter_blk nat
| Poly_blk nat nat
| Node_blk nat nat

record cut_input =
  in_floats_per_vert :: nat
  in_primative_type :: primative_type
  in_tris :: "(float list \<times> float list \<times> float list) list"

record cut_calls =
  Shape_New_ok :: "nat \<Rightarrow> bool"
  AddEdge2d_ok :: "nat \<Rightarrow> bool"
  Triangulate2D_res :: "nat \<Rightarrow> nat option"
  Make_Face_From_2d_ok :: "nat \<Rightarrow> nat \<Rightarrow> bool"
  IteratorNew_ok :: "nat \<Rightarrow> bool"
  faces_unvisited :: "nat \<Rightarrow> nat"
  VertexList_New_ok :: "nat \<Rightarrow> nat \<Rightarrow> bool"
  Build_Poly3d_ok :: "nat \<Rightarrow> nat \<Rightarrow> bool"
  ListAppend_ok :: "nat \<Rightarrow> nat \<Rightarrow> bool"

text \<open>\<open>LP_VertexList_ListFree\<close>: every node of the list is freed, with its vertex list.\<close>

definition ListFree :: "(nat \<times> nat) list \<Rightarrow> cut_block set \<Rightarrow> cut_block set" where
  "ListFree out live = foldl (\<lambda>l (s, k). l - {Poly_blk s k} - {Node_blk s k}) live out"

text \<open>
  The labels \<open>err\<close> to \<open>err7\<close> at the end of \<open>LP_PlaneCut\<close>, each falling through to the
  next: what is live after the jump. \<open>LP_VertexList_Free\<close> and \<open>Shape_Free\<close> do nothing
  for \<open>NULL\<close>.
\<close>

definition exit_err :: "(nat \<times> nat) list \<Rightarrow> cut_block set \<Rightarrow> cut_block set" where
  "exit_err out live = ListFree out live"

definition exit_err2 :: "(nat \<times> nat) list \<Rightarrow> cut_block set \<Rightarrow> cut_block set" where
  "exit_err2 out live = exit_err out (live - {Shape_blk 0})"

definition exit_err3 :: "(nat \<times> nat) list \<Rightarrow> cut_block set \<Rightarrow> cut_block set" where
  "exit_err3 out live = exit_err2 out (live - {Shape_blk 1})"

definition exit_err4 :: "(nat \<times> nat) list \<Rightarrow> cut_block set \<Rightarrow> cut_block set" where
  "exit_err4 out live = exit_err3 out (live - {Shape_blk 2})"

definition exit_err5 :: "nat \<Rightarrow> (nat \<times> nat) list \<Rightarrow> cut_block set \<Rightarrow> cut_block set" where
  "exit_err5 s out live = exit_err4 out (live - {Tri_blk s})"

definition exit_err6 :: "nat \<Rightarrow> (nat \<times> nat) list \<Rightarrow> cut_block set \<Rightarrow> cut_block set" where
  "exit_err6 s out live = exit_err5 s out (live - {Iter_blk s})"

definition exit_err7 :: "nat \<Rightarrow> nat \<Rightarrow> (nat \<times> nat) list \<Rightarrow> cut_block set \<Rightarrow> cut_block set" where
  "exit_err7 s k out live = exit_err6 s out (live - {Poly_blk s k})"

text \<open>
  The loop over the faces of side \<open>s\<close> that are not yet visited: a new vertex list, filled
  by \<open>Build_Poly3d\<close> and appended to \<open>out\<close>. A failure leaves through \<open>err6\<close> or \<open>err7\<close>
  (\<open>Inl\<close>, with what is live after it).
\<close>

fun Poly_loop ::
  "cut_calls \<Rightarrow> nat \<Rightarrow> nat list \<Rightarrow> (nat \<times> nat) list \<times> cut_block set
    \<Rightarrow> cut_block set + (nat \<times> nat) list \<times> cut_block set" where
  "Poly_loop C s [] st = Inr st"
| "Poly_loop C s (k # ks) (out, live) =
     (if \<not> VertexList_New_ok C s k then Inl (exit_err6 s out live)
      else if \<not> Build_Poly3d_ok C s k then Inl (exit_err7 s k out (insert (Poly_blk s k) live))
      else if \<not> ListAppend_ok C s k then Inl (exit_err7 s k out (insert (Poly_blk s k) live))
      else Poly_loop C s ks
             (out @ [(s, k)], insert (Node_blk s k) (insert (Poly_blk s k) live)))"

text \<open>
  One round of the loop over the two sides: the triangulation of the outline (when it fails,
  \<open>valid\<close> is cleared and the round goes on), a face for each of its triangles, the
  polyhedra of the side, and the release of the iterator and of the triangulation.
\<close>

definition Cut_side ::
  "cut_calls \<Rightarrow> nat \<Rightarrow> (nat \<times> nat) list \<times> cut_block set \<times> bool
    \<Rightarrow> cut_block set + (nat \<times> nat) list \<times> cut_block set \<times> bool" where
  "Cut_side C s st =
     (case st of (out, live, valid) \<Rightarrow>
        let (faces_ok, live1, valid1) =
              (case Triangulate2D_res C s of
                 None \<Rightarrow> (True, live, False)
               | Some n \<Rightarrow> (list_all (Make_Face_From_2d_ok C s) [0..<n], insert (Tri_blk s) live, valid))
        in if \<not> faces_ok then Inl (exit_err5 s out live1)
           else if \<not> IteratorNew_ok C s then Inl (exit_err5 s out live1)
           else case Poly_loop C s [0..<faces_unvisited C s] (out, insert (Iter_blk s) live1) of
                  Inl l \<Rightarrow> Inl l
                | Inr (out', live2) \<Rightarrow> Inr (out', live2 - {Iter_blk s} - {Tri_blk s}, valid1))"

text \<open>
  \<open>LP_PlaneCut\<close>: the result (\<open>None\<close> for the \<open>NULL\<close> of the error exit, else the output
  list; the source returns the empty list as \<open>NULL\<close> too), the blocks of the call that are
  live when it returns, and the input.
\<close>

definition LP_PlaneCut ::
  "env \<Rightarrow> cut_calls \<Rightarrow> cut_input \<Rightarrow> float list \<Rightarrow> float
    \<Rightarrow> (nat \<times> nat) list option \<times> cut_block set \<times> cut_input" where
  "LP_PlaneCut E C inp nrm d =
     (if in_floats_per_vert inp < 3 then (None, exit_err [] {}, inp)
      else if in_primative_type inp \<noteq> lp_pt_triangle then (None, exit_err [] {}, inp)
      else if \<not> Shape_New_ok C 0 then (None, exit_err [] {}, inp)
      else if \<not> Shape_New_ok C 1 then (None, exit_err2 [] {Shape_blk 0}, inp)
      else if \<not> Shape_New_ok C 2 then (None, exit_err3 [] {Shape_blk 0, Shape_blk 1}, inp)
      else if LP_PlaneCut_faces E nrm d (in_tris inp) = None
        then (None, exit_err4 [] {Shape_blk 0, Shape_blk 1, Shape_blk 2}, inp)
      else if \<not> AddEdge2d_ok C 0 \<or> \<not> AddEdge2d_ok C 1
        then (None, exit_err4 [] {Shape_blk 0, Shape_blk 1, Shape_blk 2}, inp)
      else case Cut_side C 0 ([], {Shape_blk 0, Shape_blk 1, Shape_blk 2}, True) of
             Inl l \<Rightarrow> (None, l, inp)
           | Inr st0 \<Rightarrow>
               (case Cut_side C 1 st0 of
                  Inl l \<Rightarrow> (None, l, inp)
                | Inr (out, live, valid) \<Rightarrow>
                    if \<not> valid then (None, exit_err4 out live, inp)
                    else (Some out, live - {Shape_blk 2} - {Shape_blk 1} - {Shape_blk 0}, inp)))"

text \<open>The blocks of an output list, and the shapes.\<close>

definition out_blocks :: "(nat \<times> nat) list \<Rightarrow> cut_block set" where
  "out_blocks out = (\<Union>(s, k) \<in> set out. {Poly_blk s k, Node_blk s k})"

definition shape_blocks :: "cut_block set" where
  "shape_blocks = {Shape_blk 0, Shape_blk 1, Shape_blk 2}"

text \<open>
  Sample calls: the input is the sample triangle; the triangulation of side 0 fails and that
  of side 1 returns one triangle, each side has one polyhedron, and every other call succeeds.
\<close>

definition inp6 :: cut_input where
  "inp6 = \<lparr>in_floats_per_vert = 3, in_primative_type = lp_pt_triangle, in_tris = [tri5]\<rparr>"

definition calls6 :: cut_calls where
  "calls6 = \<lparr>Shape_New_ok = (\<lambda>i. True), AddEdge2d_ok = (\<lambda>s. True),
             Triangulate2D_res = (\<lambda>s. if s = 0 then None else Some 1),
             Make_Face_From_2d_ok = (\<lambda>s k. True), IteratorNew_ok = (\<lambda>s. True),
             faces_unvisited = (\<lambda>s. 1), VertexList_New_ok = (\<lambda>s k. True),
             Build_Poly3d_ok = (\<lambda>s k. True), ListAppend_ok = (\<lambda>s k. True)\<rparr>"

section \<open>Convex hull\<close>

text \<open>
  The categories of \<open>Categorize\<close> (\<open>PRESENT\<close>, \<open>EXTEND\<close> and \<open>DELETE\<close> in the source),
  the list of point indices kept with each face, with the distance of its furthest point,
  and a face: the ring of its vertex indices from \<open>face->verts\<close> along \<open>next\<close>, its
  normal and its two in-plane axes. The point array \<open>data\<close> is a list of points, the point
  \<open>data + 3 * idx\<close> being \<open>dat ! idx\<close>.
\<close>


datatype category = PRESENT_cat | EXTEND | DELETE

record point_list =
  pl_idx :: "nat list"
  max_dist :: float

definition PointList_New :: point_list where
  "PointList_New = \<lparr>pl_idx = [], max_dist = 0\<rparr>"

definition PointList_Add :: "point_list \<Rightarrow> nat \<Rightarrow> float \<Rightarrow> point_list" where
  "PointList_Add pl elem d =
     (if pl_idx pl = [] then \<lparr>pl_idx = [elem], max_dist = d\<rparr>
      else if d > max_dist pl then \<lparr>pl_idx = elem # pl_idx pl, max_dist = d\<rparr>
      else pl\<lparr>pl_idx := pl_idx pl @ [elem]\<rparr>)"

record ch_face =
  face_verts :: "nat list"
  face_norm :: "float list"
  face_xx :: "float list"
  face_yy :: "float list"
  face_pts :: point_list

definition CH_Face_New :: "nat \<Rightarrow> nat \<Rightarrow> nat \<Rightarrow> float list list \<Rightarrow> ch_face" where
  "CH_Face_New idx0 idx1 idx2 dat =
     (let nrm = PlaneNorm (dat ! idx0) (dat ! idx1) (dat ! idx2);
          xy = BasisVectors nrm
      in \<lparr>face_verts = [idx0, idx1, idx2], face_norm = nrm, face_xx = fst xy, face_yy = snd xy,
          face_pts = PointList_New\<rparr>)"

definition delta3 :: "float list \<Rightarrow> float list \<Rightarrow> float list" where
  "delta3 vt pt = [vt ! 0 - pt ! 0, vt ! 1 - pt ! 1, vt ! 2 - pt ! 2]"

fun Categorize_loop ::
  "float list list \<Rightarrow> float list \<Rightarrow> float list \<Rightarrow> float list \<Rightarrow> nat list
    \<Rightarrow> float \<times> float \<times> float \<times> float \<Rightarrow> float \<times> float" where
  "Categorize_loop dat pt xx yy [] (x2, y2, area, mx) = (area, mx)"
| "Categorize_loop dat pt xx yy (i # ring) (x2, y2, area, mx) =
     (let x1 = x2; y1 = y2;
          delta = delta3 (dat ! i) pt;
          x2' = Dot delta xx;
          y2' = Dot delta yy;
          area' = area + (x1 * y2' - y1 * x2');
          dx = x2' - x1;
          dy = y2' - y1;
          dd = (dy * x1 - dx * y1) / sqrtf (dx * dx + dy * dy);
          mx' = (if dd > mx then dd else mx)
      in Categorize_loop dat pt xx yy ring (x2', y2', area', mx'))"

definition Categorize :: "ch_face \<Rightarrow> nat \<Rightarrow> float list list \<Rightarrow> category \<times> float" where
  "Categorize face idx dat =
     (let pt = dat ! idx;
          delta = delta3 (dat ! last (face_verts face)) pt;
          dist = Dot delta (face_norm face);
          (area, mx) = Categorize_loop dat pt (face_xx face) (face_yy face) (face_verts face)
                         (Dot delta (face_xx face), Dot delta (face_yy face), 0, MInf);
          tol = to_float (dmul d1e5 (sqrtf \<bar>area\<bar>))
      in (if mx > 0 then
            (if \<bar>dist\<bar> < tol \<or> \<bar>dist\<bar> < dmul d1e5 mx then EXTEND
             else if dist > 0 then DELETE
             else PRESENT_cat)
          else if dist > tol then DELETE
          else let dpt = dist + tol
               in if dpt * dpt + mx * mx < Fin 4 * tol * tol then EXTEND else PRESENT_cat,
          dist))"

text \<open>
  The start of \<open>InitSimplex_start\<close>: the points of least and greatest x, the point furthest
  from both, the first face, the sorting of all other points against it, and the flip.
  The allocations succeed or fail with \<open>obj_malloc\<close>.
\<close>


datatype hull_error = ERR_FEW_POINTS | ERR_ALLOC | ERR_COLINEAR | ERR_COPLANAR

definition InitSimplex_minmax ::
  "float list list \<Rightarrow> float \<times> float \<times> nat \<times> nat \<Rightarrow> nat \<Rightarrow> float \<times> float \<times> nat \<times> nat" where
  "InitSimplex_minmax dat st idx =
     (case st of (min_f, max_f, min_idx, max_idx) \<Rightarrow>
        let ff = dat ! idx ! 0;
            (max_f', max_idx') = (if ff > max_f then (ff, idx) else (max_f, max_idx));
            (min_f', min_idx') = (if ff < min_f then (ff, idx) else (min_f, min_idx))
        in (min_f', max_f', min_idx', max_idx'))"

definition InitSimplex_furthest ::
  "float list list \<Rightarrow> float list \<Rightarrow> float list \<Rightarrow> float \<times> nat \<Rightarrow> nat \<Rightarrow> float \<times> nat" where
  "InitSimplex_furthest dat min_p max_p st idx =
     (case st of (dd_f, dd_idx) \<Rightarrow>
        let d = Dist (dat ! idx) min_p + Dist (dat ! idx) max_p
        in if d > dd_f then (d, idx) else (dd_f, dd_idx))"

definition InitSimplex_sort ::
  "float list list \<Rightarrow> nat \<Rightarrow> nat \<Rightarrow> nat \<Rightarrow> ch_face \<times> point_list \<times> point_list \<Rightarrow> nat
    \<Rightarrow> ch_face \<times> point_list \<times> point_list" where
  "InitSimplex_sort dat min_idx max_idx dd_idx st idx =
     (case st of (face, pool, below) \<Rightarrow>
        if idx = min_idx \<or> idx = max_idx \<or> idx = dd_idx then st
        else case Categorize face idx dat of (cat, d) \<Rightarrow>
          if cat = DELETE then (face\<lparr>face_pts := PointList_Add (face_pts face) idx d\<rparr>, pool, below)
          else if cat = EXTEND then (face, PointList_Add pool idx \<bar>d\<bar>, below)
          else (face, pool, PointList_Add below idx (- d)))"

definition InitSimplex_flip :: "ch_face \<times> point_list \<Rightarrow> ch_face \<times> point_list" where
  "InitSimplex_flip st =
     (case st of (face, below) \<Rightarrow>
        if max_dist (face_pts face) > max_dist below then
          (face\<lparr>face_pts := below,
                face_verts := (face_verts face)[0 := face_verts face ! 1, 1 := face_verts face ! 0],
                face_norm := [- (face_norm face ! 0), - (face_norm face ! 1), - (face_norm face ! 2)]\<rparr>,
           face_pts face)
        else (face, below))"

record simplex =
  sx_face :: ch_face
  sx_pool :: point_list
  sx_below :: point_list

definition InitSimplex_start :: "env \<Rightarrow> nat \<Rightarrow> float list list \<Rightarrow> hull_error + simplex" where
  "InitSimplex_start E len dat =
     (if len < 4 then Inl ERR_FEW_POINTS
      else
        let (min_f, max_f, min_idx, max_idx) = foldl (InitSimplex_minmax dat) (PInf, MInf, 0, 0) [0..<len];
            (dd_f, dd_idx) = foldl (InitSimplex_furthest dat (dat ! min_idx) (dat ! max_idx)) (0, 0) [0..<len]
        in if \<not> obj_malloc E then Inl ERR_ALLOC
           else
             let face = CH_Face_New min_idx max_idx dd_idx dat
             in if feq (Norm2 (face_norm face)) 0 then Inl ERR_COLINEAR
                else
                  let (face1, pool, below1) =
                        foldl (InitSimplex_sort dat min_idx max_idx dd_idx)
                          (face, PointList_New, PointList_New) [0..<len];
                      (face2, below2) = InitSimplex_flip (face1, below1)
                  in if pl_idx below2 = [] then Inl ERR_COPLANAR
                     else Inr \<lparr>sx_face = face2, sx_pool = pool, sx_below = below2\<rparr>)"

subsection \<open>The quantities of the decision\<close>

text \<open>
  In the arithmetic of the code, for the points \<open>dat\<close>, a face \<open>f\<close> and the point of index
  \<open>idx\<close>: the in-plane coordinates \<open>face_proj\<close> of the ring vertices relative to the point,
  the edges of the ring (each vertex with the one before it), the signed distance
  \<open>face_dist\<close> to the plane, the greatest signed in-plane distance \<open>face_max\<close> to an edge
  (\<open>-\<infinity>\<close> when no edge has one), and the sum \<open>face_area2\<close> of the cross terms of the edges,
  which is twice the signed area of the ring in the in-plane coordinates. The tolerance
  \<open>face_tol\<close> and the product \<open>1e-5 * max\<close> are products of doubles, the first converted to
  \<open>float\<close>.
\<close>

definition ring_edges :: "'a list \<Rightarrow> ('a \<times> 'a) list" where
  "ring_edges ring = zip (last ring # ring) ring"

definition edge_cross :: "(float \<times> float) \<times> (float \<times> float) \<Rightarrow> float" where
  "edge_cross e = (case e of ((x1, y1), (x2, y2)) \<Rightarrow> x1 * y2 - y1 * x2)"

definition edge_dist :: "(float \<times> float) \<times> (float \<times> float) \<Rightarrow> float" where
  "edge_dist e = (case e of ((x1, y1), (x2, y2)) \<Rightarrow>
     ((y2 - y1) * x1 - (x2 - x1) * y1) / sqrtf ((x2 - x1) * (x2 - x1) + (y2 - y1) * (y2 - y1)))"

definition cat_rule :: "float \<Rightarrow> float \<Rightarrow> float \<Rightarrow> category" where
  "cat_rule d m t =
     (if m > 0 then
        (if \<bar>d\<bar> < t \<or> \<bar>d\<bar> < dmul d1e5 m then EXTEND else if d > 0 then DELETE else PRESENT_cat)
      else if d > t then DELETE
      else if (d + t) * (d + t) + m * m < Fin 4 * t * t then EXTEND
      else PRESENT_cat)"

definition fmax_step :: "float \<Rightarrow> float \<Rightarrow> float" where
  "fmax_step mx dd = (if dd > mx then dd else mx)"

definition in_plane :: "ch_face \<Rightarrow> float list \<Rightarrow> float list \<Rightarrow> float \<times> float" where
  "in_plane f p v = (Dot (delta3 v p) (face_xx f), Dot (delta3 v p) (face_yy f))"

definition face_proj :: "ch_face \<Rightarrow> float list list \<Rightarrow> nat \<Rightarrow> (float \<times> float) list" where
  "face_proj f dat idx = map (\<lambda>i. in_plane f (dat ! idx) (dat ! i)) (face_verts f)"

definition face_dist :: "ch_face \<Rightarrow> float list list \<Rightarrow> nat \<Rightarrow> float" where
  "face_dist f dat idx = Dot (delta3 (dat ! last (face_verts f)) (dat ! idx)) (face_norm f)"

definition face_max :: "ch_face \<Rightarrow> float list list \<Rightarrow> nat \<Rightarrow> float" where
  "face_max f dat idx = foldl fmax_step MInf (map edge_dist (ring_edges (face_proj f dat idx)))"

definition face_area2 :: "ch_face \<Rightarrow> float list list \<Rightarrow> nat \<Rightarrow> float" where
  "face_area2 f dat idx = foldl (+) 0 (map edge_cross (ring_edges (face_proj f dat idx)))"

definition face_tol :: "ch_face \<Rightarrow> float list list \<Rightarrow> nat \<Rightarrow> float" where
  "face_tol f dat idx = to_float (dmul d1e5 (sqrtf \<bar>face_area2 f dat idx\<bar>))"

text \<open>
  The decision as claim C2 words it, over the reals, with the area of the triangle in the
  tolerance: half the length of the cross product of two sides.
\<close>

type_synonym real3 = "real \<times> real \<times> real"

definition rvec :: "float list \<Rightarrow> real3" where
  "rvec p = (fval (p ! 0), fval (p ! 1), fval (p ! 2))"

definition sub3 :: "real3 \<Rightarrow> real3 \<Rightarrow> real3" where
  "sub3 a b = (case a of (ax, ay, az) \<Rightarrow> case b of (bx, by, bz) \<Rightarrow> (ax - bx, ay - by, az - bz))"

definition cross3 :: "real3 \<Rightarrow> real3 \<Rightarrow> real3" where
  "cross3 a b = (case a of (ax, ay, az) \<Rightarrow> case b of (bx, by, bz) \<Rightarrow>
     (ay * bz - az * by, az * bx - ax * bz, ax * by - ay * bx))"

definition norm3 :: "real3 \<Rightarrow> real" where
  "norm3 a = (case a of (ax, ay, az) \<Rightarrow> sqrt (ax * ax + ay * ay + az * az))"

definition tri_area :: "real3 \<Rightarrow> real3 \<Rightarrow> real3 \<Rightarrow> real" where
  "tri_area a b c = norm3 (cross3 (sub3 b a) (sub3 c a)) / 2"

definition cat_rule_claimed :: "real \<Rightarrow> real \<Rightarrow> real \<Rightarrow> category" where
  "cat_rule_claimed d m t =
     (if m > 0 then (if \<bar>d\<bar> < t \<or> \<bar>d\<bar> < m / 100000 then EXTEND else if d > 0 then DELETE else PRESENT_cat)
      else if d > t then DELETE
      else if (d + t)\<^sup>2 + m\<^sup>2 < 4 * t\<^sup>2 then EXTEND
      else PRESENT_cat)"

definition Categorize_claimed :: "ch_face \<Rightarrow> float list list \<Rightarrow> nat \<Rightarrow> category" where
  "Categorize_claimed f dat idx =
     cat_rule_claimed (fval (face_dist f dat idx)) (fval (face_max f dat idx))
       (sqrt \<bar>tri_area (rvec (dat ! (face_verts f ! 0))) (rvec (dat ! (face_verts f ! 1)))
                (rvec (dat ! (face_verts f ! 2)))\<bar> / 100000)"

text \<open>
  The distance of the furthest point of a list, in the order of the list (0 for the empty
  list, as in a new point list), and the points sorted into one category, with their
  distances from the plane of the face.
\<close>

definition furthest :: "float list \<Rightarrow> float" where
  "furthest ds = (case ds of [] \<Rightarrow> 0 | d # ds' \<Rightarrow> foldl fmax_step d ds')"

definition sorted_out :: "nat \<Rightarrow> nat \<Rightarrow> nat \<Rightarrow> ch_face \<Rightarrow> float list list \<Rightarrow> category \<Rightarrow> nat list \<Rightarrow> nat list" where
  "sorted_out a b c f dat cat idxs =
     filter (\<lambda>i. i \<noteq> a \<and> i \<noteq> b \<and> i \<noteq> c \<and> fst (Categorize f i dat) = cat) idxs"

definition above_dists :: "nat \<Rightarrow> nat \<Rightarrow> nat \<Rightarrow> ch_face \<Rightarrow> float list list \<Rightarrow> nat list \<Rightarrow> float list" where
  "above_dists a b c f dat idxs = map (\<lambda>i. face_dist f dat i) (sorted_out a b c f dat DELETE idxs)"

definition below_dists :: "nat \<Rightarrow> nat \<Rightarrow> nat \<Rightarrow> ch_face \<Rightarrow> float list list \<Rightarrow> nat list \<Rightarrow> float list" where
  "below_dists a b c f dat idxs = map (\<lambda>i. - face_dist f dat i) (sorted_out a b c f dat PRESENT_cat idxs)"

text \<open>
  Sample input for \<open>Categorize\<close>: the triangle (0, 0, 0), (150, 0, 0), (7, 24, 0), with sides
  of the lengths 150, 145 and 25 and the area 1800, and a point at distance \<open>2\<^sup>-\<^sup>1\<^sup>1\<close> from its
  plane.
\<close>

definition face2 :: ch_face where
  "face2 = \<lparr>face_verts = [0, 1, 2], face_norm = [Fin 0, NZero, Fin 1],
            face_xx = [NZero, Fin 1, Fin 0], face_yy = [Fin (- 1), NZero, Fin 0],
            face_pts = PointList_New\<rparr>"

definition dat2 :: "float list list" where
  "dat2 = [[Fin 0, Fin 0, Fin 0], [Fin 150, Fin 0, Fin 0], [Fin 7, Fin 24, Fin 0],
           [Fin 50, Fin 10, Fin (- (1 / 2048))]]"

text \<open>
  Sample input for \<open>InitSimplex_start\<close>: the same triangle, one point at distance 6 on one side
  of it and two points at distances 30 and 32 on the other.
\<close>

definition dat4 :: "float list list" where
  "dat4 = [[Fin 0, Fin 0, Fin 0], [Fin 150, Fin 0, Fin 0], [Fin 7, Fin 24, Fin 0],
           [Fin 75, Fin 30, Fin (- 6)], [Fin 75, Fin 6, Fin 30], [Fin 75, Fin 24, Fin 32]]"

definition simplex4 :: simplex where
  "simplex4 = \<lparr>sx_face = face2\<lparr>face_pts := \<lparr>pl_idx = [3], max_dist = Fin 6\<rparr>\<rparr>,
                sx_pool = PointList_New, sx_below = \<lparr>pl_idx = [5, 4], max_dist = Fin 32\<rparr>\<rparr>"

chapter \<open>Properties\<close>

section \<open>Floats\<close>

lemma expo_numeral:
  "expo (numeral k) a =
     (if 2 \<le> a then expo (pred_numeral k) (a / 2) + 1
      else if a < 1 then expo (pred_numeral k) (a * 2) - 1 else 0)"
  by (simp add: numeral_eq_Suc)

text \<open>Rewriting with \<open>rnd_eval\<close> computes the rounding of a rational number.\<close>

lemmas rnd_eval = rnd32_def rnd64_def fround_def round_mag_def expo_numeral pow2_def rhe_def Let_def

lemma isinf_simps [simp]:
  "isinf (Fin a) = False" "isinf NZero = False" "isinf NaN = False" "isinf PInf = True" "isinf MInf = True"
  by (simp_all add: isinf_def)

lemma zero_s_simps [simp]: "zero_s True = NZero" "zero_s False = Fin 0"
  by (simp_all add: zero_s_def)

lemma inf_s_simps [simp]: "inf_s True = MInf" "inf_s False = PInf"
  by (simp_all add: inf_s_def)

lemma float_consts [simp]: "(0 :: float) = Fin 0" "(1 :: float) = Fin 1"
  by (simp_all add: zero_float_def one_float_def)

lemma float_diff: "x - y = x + - y" for x y :: float
  by (simp add: minus_float_def plus_float_def uminus_float_def)

lemma float_uminus [simp]:
  "- Fin a = (if a = 0 then NZero else Fin (- a))" "- NZero = Fin 0" "- NaN = NaN" "- PInf = MInf"
  "- MInf = PInf"
  by (simp_all add: uminus_float_def)

lemma float_abs [simp]:
  "\<bar>Fin a\<bar> = Fin \<bar>a\<bar>" "\<bar>NZero\<bar> = Fin 0" "\<bar>NaN\<bar> = NaN" "\<bar>PInf\<bar> = PInf" "\<bar>MInf\<bar> = PInf"
  by (simp_all add: abs_float_def)

lemma float_add [simp]:
  "Fin a + Fin b = (if a + b = 0 then Fin 0 else rnd32 (a + b))"
  "Fin a + NZero = (if a = 0 then Fin 0 else rnd32 a)"
  "NZero + Fin a = (if a = 0 then Fin 0 else rnd32 a)"
  "NZero + NZero = NZero"
  by (simp_all add: plus_float_def fadd_r_def)

lemma float_sub [simp]:
  "Fin a - Fin b =
     (if b = 0 then (if a = 0 then Fin 0 else rnd32 a)
      else if a - b = 0 then Fin 0 else rnd32 (a - b))"
  "Fin a - NZero = (if a = 0 then Fin 0 else rnd32 a)"
  "NZero - Fin b = (if b = 0 then NZero else rnd32 (- b))"
  "NZero - NZero = Fin 0"
  by (simp_all add: minus_float_def fadd_r_def)

lemma float_mul [simp]:
  "Fin a * Fin b = (if a * b = 0 then zero_s ((a < 0) \<noteq> (b < 0)) else rnd32 (a * b))"
  "Fin a * NZero = zero_s (\<not> a < 0)"
  "NZero * Fin a = zero_s (\<not> a < 0)"
  "NZero * NZero = Fin 0"
  by (auto simp: times_float_def fmul_r_def)

lemma float_div [simp]:
  "Fin a / Fin b =
     (if b = 0 then (if a = 0 then NaN else inf_s (a < 0))
      else if a = 0 then zero_s (b < 0) else rnd32 (a / b))"
  "Fin a / NZero = (if a = 0 then NaN else inf_s (\<not> a < 0))"
  "NZero / Fin b = (if b = 0 then NaN else zero_s (\<not> b < 0))"
  "NZero / NZero = NaN"
  by (auto simp: divide_float_def fdiv_r_def)

lemma dmul_Fin [simp]:
  "dmul (Fin a) (Fin b) = (if a * b = 0 then zero_s ((a < 0) \<noteq> (b < 0)) else rnd64 (a * b))"
  by (auto simp: dmul_def fmul_r_def)

lemma to_float_simps [simp]:
  "to_float (Fin a) = (if a = 0 then Fin 0 else rnd32 a)" "to_float NZero = NZero" "to_float NaN = NaN"
  "to_float PInf = PInf" "to_float MInf = MInf"
  by (simp_all add: to_float_def)

lemma float_less [simp]:
  "(Fin a < Fin b) = (a < b)" "(Fin a < NZero) = (a < 0)" "(NZero < Fin b) = (0 < b)"
  "(NZero < NZero) = False"
  "(Fin a < PInf) = True" "(MInf < Fin a) = True" "(PInf < Fin a) = False" "(Fin a < MInf) = False"
  "(NZero < PInf) = True" "(MInf < NZero) = True" "(PInf < NZero) = False" "(NZero < MInf) = False"
  "(MInf < PInf) = True" "(PInf < MInf) = False" "(PInf < PInf) = False" "(MInf < MInf) = False"
  "(x < NaN) = False" "(NaN < x) = False"
  by (simp_all add: less_float_def flt_def)

lemma float_le [simp]:
  "(Fin a \<le> Fin b) = (a \<le> b)" "(Fin a \<le> NZero) = (a \<le> 0)" "(NZero \<le> Fin b) = (0 \<le> b)"
  "(NZero \<le> NZero) = True"
  "(Fin a \<le> PInf) = True" "(MInf \<le> Fin a) = True" "(PInf \<le> Fin a) = False" "(Fin a \<le> MInf) = False"
  "(NZero \<le> PInf) = True" "(MInf \<le> NZero) = True" "(PInf \<le> NZero) = False" "(NZero \<le> MInf) = False"
  "(MInf \<le> PInf) = True" "(PInf \<le> MInf) = False" "(PInf \<le> PInf) = True" "(MInf \<le> MInf) = True"
  "(x \<le> NaN) = False" "(NaN \<le> x) = False"
  by (simp_all add: less_eq_float_def fle_def)

lemma feq_simps [simp]:
  "feq (Fin a) (Fin b) = (a = b)" "feq (Fin a) NZero = (a = 0)" "feq NZero (Fin b) = (0 = b)"
  "feq NZero NZero = True" "feq NaN x = False" "feq x NaN = False"
  "feq PInf (Fin a) = False" "feq MInf (Fin a) = False" "feq (Fin a) PInf = False" "feq (Fin a) MInf = False"
  by (simp_all add: feq_def)

lemma copysignf_simps [simp]:
  "copysignf (Fin a) (Fin b) = (if b < 0 then (if a = 0 then NZero else Fin (- \<bar>a\<bar>)) else Fin \<bar>a\<bar>)"
  "copysignf (Fin a) NZero = (if a = 0 then NZero else Fin (- \<bar>a\<bar>))"
  "copysignf NZero (Fin b) = (if b < 0 then NZero else Fin 0)"
  "copysignf NZero NZero = NZero"
  by (simp_all add: copysignf_def)

text \<open>The order of the floats.\<close>

lemma flt_trans: "x < y \<Longrightarrow> y < z \<Longrightarrow> x < z" for x y z :: float
  by (cases x; cases y; cases z; simp)

lemma flt_irrefl: "\<not> x < x" for x :: float
  by (cases x; simp)

lemma flt_asym: "x < y \<Longrightarrow> \<not> y < x" for x y :: float
  by (cases x; cases y; simp)

section \<open>Hash table and vertex list\<close>

lemma memcmp_eq: "length a = n \<Longrightarrow> length b = n \<Longrightarrow> (memcmp a b n = 0) = (a = b)"
proof (induction a b n rule: memcmp.induct)
  case (5 x a y b n)
  then show ?case by auto
qed auto

lemma Find_chain_le: "Find_chain F u k hv es \<le> length es"
  by (induction es) auto

lemma Find_chain_found:
  "Find_chain F u k hv es < length es \<Longrightarrow>
   hash_val (es ! Find_chain F u k hv es) = hv \<and> cmp F u (key (es ! Find_chain F u k hv es)) k = 0"
  by (induction es) (auto split: if_splits)

lemma Find_chain_exists:
  "e \<in> set es \<Longrightarrow> hash_val e = hv \<Longrightarrow> cmp F u (key e) k = 0 \<Longrightarrow> Find_chain F u k hv es < length es"
  by (induction es) auto

lemma Find_chain_none:
  "\<forall>e \<in> set es. \<not> (hash_val e = hv \<and> cmp F u (key e) k = 0) \<Longrightarrow> Find_chain F u k hv es = length es"
  by (induction es) auto

lemma in_concat_nth: "x \<in> set (concat bs) \<longleftrightarrow> (\<exists>i < length bs. x \<in> set (bs ! i))"
  by (auto simp: in_set_conv_nth) (metis nth_mem)+

lemma concat_update_set:
  "d < length bs \<Longrightarrow> set c = S \<union> set (bs ! d) \<Longrightarrow> set (concat (bs[d := c])) = S \<union> set (concat bs)"
proof (rule set_eqI)
  fix x assume d: "d < length bs" and c: "set c = S \<union> set (bs ! d)"
  have "x \<in> set (concat (bs[d := c])) \<longleftrightarrow> (\<exists>i < length bs. x \<in> set (bs[d := c] ! i))"
    by (simp only: in_concat_nth length_list_update)
  also have "\<dots> \<longleftrightarrow> x \<in> S \<or> (\<exists>i < length bs. x \<in> set (bs ! i))"
  proof
    assume "\<exists>i < length bs. x \<in> set (bs[d := c] ! i)"
    then obtain i where i: "i < length bs" "x \<in> set (bs[d := c] ! i)" by blast
    show "x \<in> S \<or> (\<exists>i < length bs. x \<in> set (bs ! i))"
    proof (cases "i = d")
      case True
      with i d c have "x \<in> S \<union> set (bs ! d)" by simp
      with d show ?thesis by blast
    next
      case False
      with i have "x \<in> set (bs ! i)" by simp
      with i show ?thesis by blast
    qed
  next
    assume "x \<in> S \<or> (\<exists>i < length bs. x \<in> set (bs ! i))"
    then consider "x \<in> S" | i where "i < length bs" "x \<in> set (bs ! i)" by blast
    then show "\<exists>i < length bs. x \<in> set (bs[d := c] ! i)"
    proof cases
      case 1
      with d c have "x \<in> set (bs[d := c] ! d)" by simp
      with d show ?thesis by blast
    next
      case (2 i)
      show ?thesis
      proof (cases "i = d")
        case True
        with 2 d c have "x \<in> set (bs[d := c] ! d)" by simp
        with d show ?thesis by blast
      next
        case False
        with 2 have "x \<in> set (bs[d := c] ! i)" by simp
        with 2 show ?thesis by blast
      qed
    qed
  qed
  also have "\<dots> \<longleftrightarrow> x \<in> S \<union> set (concat bs)"
    by (simp only: in_concat_nth Un_iff)
  finally show "x \<in> set (concat (bs[d := c])) \<longleftrightarrow> x \<in> S \<union> set (concat bs)" .
qed

lemma Rehash_move_ok:
  "dist_ok n bs \<Longrightarrow> dist_ok n (Rehash_move n bs e)"
  unfolding dist_ok_def Rehash_move_def Let_def
  by (auto simp: nth_list_update)

lemma Rehash_move_elems:
  "dist_ok n bs \<Longrightarrow> set (concat (Rehash_move n bs e)) = insert e (set (concat bs))"
  unfolding Rehash_move_def Let_def dist_ok_def
  by (subst concat_update_set[where S = "{e}"]) auto

lemma Rehash_chain:
  "dist_ok n bs \<Longrightarrow> dist_ok n (foldl (Rehash_move n) bs c) \<and>
     set (concat (foldl (Rehash_move n) bs c)) = set c \<union> set (concat bs)"
proof (induction c arbitrary: bs)
  case Nil
  then show ?case by simp
next
  case (Cons e c)
  from Cons.prems have 1: "dist_ok n (Rehash_move n bs e)" by (rule Rehash_move_ok)
  from Cons.IH[OF 1] Rehash_move_elems[OF Cons.prems, of e] show ?case by auto
qed

lemma Rehash_all:
  "dist_ok n bs \<Longrightarrow> dist_ok n (foldl (foldl (Rehash_move n)) bs cs) \<and>
     set (concat (foldl (foldl (Rehash_move n)) bs cs)) = set (concat cs) \<union> set (concat bs)"
proof (induction cs arbitrary: bs)
  case Nil
  then show ?case by simp
next
  case (Cons c cs)
  from Rehash_chain[OF Cons.prems, of c]
  have 1: "dist_ok n (foldl (Rehash_move n) bs c)"
    and 2: "set (concat (foldl (Rehash_move n) bs c)) = set c \<union> set (concat bs)" by auto
  from Cons.IH[OF 1] 2 show ?case by auto
qed

lemma dist_ok_replicate: "0 < n \<Longrightarrow> dist_ok n (replicate n [])"
  by (simp add: dist_ok_def)

lemma Rehash_wf: "hash_wf h \<Longrightarrow> hash_wf (Rehash E h) \<and> hash_elems (Rehash E h) = hash_elems h
   \<and> secret (Rehash E h) = secret h"
proof -
  assume wf: "hash_wf h"
  then have pos: "0 < num_buckets h * 2" by (simp add: hash_wf_def dist_ok_def)
  from Rehash_all[OF dist_ok_replicate[OF pos], of "buckets h"]
  show ?thesis using wf
    by (auto simp: Rehash_def hash_wf_def hash_elems_def Let_def)
qed

lemma hash_elems_bucket: "hash_wf h \<Longrightarrow> e \<in> hash_elems h \<Longrightarrow>
   e \<in> set (buckets h ! (unat (hash_val e) mod num_buckets h))"
  unfolding hash_wf_def dist_ok_def hash_elems_def in_concat_nth by auto

lemma bucket_hash_elems: "hash_wf h \<Longrightarrow> b < num_buckets h \<Longrightarrow> e \<in> set (buckets h ! b) \<Longrightarrow> e \<in> hash_elems h"
  unfolding hash_wf_def dist_ok_def hash_elems_def in_concat_nth by auto

lemma hash_wf_bucket_lt: "hash_wf h \<Longrightarrow> unat hv mod num_buckets h < num_buckets h"
  by (simp add: hash_wf_def dist_ok_def)

lemma vl_inv_alt:
  "vl_inv E vl \<longleftrightarrow>
     0 < floats_per_vert vl \<and> vert_size vl = floats_per_vert vl * sizeof_float \<and>
     (\<forall>v \<in> set (vert vl). length v = vert_size vl) \<and> distinct (vert vl) \<and>
     vert_used vl \<le> vert_alloc vl \<and> 0 < vert_alloc vl \<and> vert_alloc vl \<le> UINT_MAX \<and>
     ind_used vl \<le> ind_alloc vl \<and> 0 < ind_alloc vl \<and>
     (\<exists>h. vert_hash vl = Some h \<and> vl_hash_inv E vl h)"
  by (cases "vert_hash vl") (simp_all add: vl_inv_def)

lemma vl_inv_hash: "vl_inv E vl \<Longrightarrow> \<exists>h. vert_hash vl = Some h \<and> vl_hash_inv E vl h"
  by (simp add: vl_inv_alt)

lemma vl_inv_hashD: "vl_inv E vl \<Longrightarrow> vert_hash vl = Some h \<Longrightarrow> vl_hash_inv E vl h"
  by (auto simp: vl_inv_alt)

lemma vl_Find_stored:
  assumes inv: "vl_inv E vl" and h: "vert_hash vl = Some h" and i: "i < vert_used vl"
    and hv: "hv = siphash E (secret h) (vert vl ! i)"
  shows "Find_chain (VlFuncs E) vl (vert vl ! i) hv (buckets h ! (unat hv mod num_buckets h))
           < length (buckets h ! (unat hv mod num_buckets h))"
proof -
  from inv h have hi: "vl_hash_inv E vl h" by (rule vl_inv_hashD)
  then obtain e where e: "e \<in> hash_elems h" "key e = i + 1"
    using i by (auto simp: vl_hash_inv_def)
  from hi e have ehv: "hash_val e = hv" by (auto simp: vl_hash_inv_def hv)
  from hi have wf: "hash_wf h" by (simp add: vl_hash_inv_def)
  from wf e(1) have "e \<in> set (buckets h ! (unat (hash_val e) mod num_buckets h))"
    by (rule hash_elems_bucket)
  with ehv have mem: "e \<in> set (buckets h ! (unat hv mod num_buckets h))" by simp
  from inv i have len: "length (vert vl ! i) = vert_size vl"
    by (auto simp: vl_inv_alt vert_used_def)
  have "cmp (VlFuncs E) vl (key e) (vert vl ! i) = 0"
    using e len by (simp add: VlFuncs_def VlCmp_def memcmp_eq)
  with mem ehv show ?thesis by (rule Find_chain_exists)
qed

lemma vl_Find_match:
  assumes inv: "vl_inv E vl" and h: "vert_hash vl = Some h" and len: "length v = vert_size vl"
    and pos: "Find_chain (VlFuncs E) vl v hv (buckets h ! (unat hv mod num_buckets h))
           < length (buckets h ! (unat hv mod num_buckets h))"
  shows "1 \<le> key ((buckets h ! (unat hv mod num_buckets h)) ! Find_chain (VlFuncs E) vl v hv (buckets h ! (unat hv mod num_buckets h))) \<and>
         key ((buckets h ! (unat hv mod num_buckets h)) ! Find_chain (VlFuncs E) vl v hv (buckets h ! (unat hv mod num_buckets h))) \<le> vert_used vl \<and>
         vert vl ! (key ((buckets h ! (unat hv mod num_buckets h)) ! Find_chain (VlFuncs E) vl v hv (buckets h ! (unat hv mod num_buckets h))) - 1) = v"
proof -
  let ?c = "buckets h ! (unat hv mod num_buckets h)"
  let ?e = "?c ! Find_chain (VlFuncs E) vl v hv ?c"
  from inv h have hi: "vl_hash_inv E vl h" by (rule vl_inv_hashD)
  then have wf: "hash_wf h" by (simp add: vl_hash_inv_def)
  from pos have "?e \<in> set ?c" by simp
  with wf have "?e \<in> hash_elems h" by (auto intro: bucket_hash_elems hash_wf_bucket_lt)
  with hi have k: "1 \<le> key ?e" "key ?e \<le> vert_used vl" by (auto simp: vl_hash_inv_def)
  then have "key ?e - 1 < length (vert vl)" by (simp add: vert_used_def)
  with inv have l2: "length (vert vl ! (key ?e - 1)) = vert_size vl" by (auto simp: vl_inv_alt)
  from Find_chain_found[OF pos] have "cmp (VlFuncs E) vl (key ?e) v = 0" by simp
  then have "vert vl ! (key ?e - 1) = v" using len l2
    by (simp add: VlFuncs_def VlCmp_def memcmp_eq)
  with k show ?thesis by simp
qed

lemma hash_append_wf:
  assumes wf: "hash_wf h" and b: "b = unat (hash_val e) mod num_buckets h"
  shows "hash_wf (h\<lparr>buckets := (buckets h)[b := buckets h ! b @ [e]]\<rparr>)"
    and "hash_elems (h\<lparr>buckets := (buckets h)[b := buckets h ! b @ [e]]\<rparr>) = insert e (hash_elems h)"
proof -
  from wf b have bl: "b < length (buckets h)" by (simp add: hash_wf_def dist_ok_def)
  show "hash_wf (h\<lparr>buckets := (buckets h)[b := buckets h ! b @ [e]]\<rparr>)"
    using wf b by (auto simp: hash_wf_def dist_ok_def nth_list_update)
  show "hash_elems (h\<lparr>buckets := (buckets h)[b := buckets h ! b @ [e]]\<rparr>) = insert e (hash_elems h)"
    using concat_update_set[OF bl, of "buckets h ! b @ [e]" "{e}"]
    by (simp add: hash_elems_def)
qed

lemma Hash_Insert_vl_found:
  assumes inv: "vl_inv E vl" and h: "vert_hash vl = Some h" and i: "i < vert_used vl"
  shows "\<exists>j. Hash_Insert (VlFuncs E) E vl h (vert vl ! i) PRESENT = (0, Some (j + 1), h, vl) \<and>
             j < vert_used vl \<and> vert vl ! j = vert vl ! i"
proof -
  let ?v = "vert vl ! i"
  from inv i have len: "length ?v = vert_size vl" by (auto simp: vl_inv_alt vert_used_def)
  let ?hv = "siphash E (secret h) ?v"
  let ?b = "unat ?hv mod num_buckets h"
  let ?c = "buckets h ! ?b"
  let ?pos = "Find_chain (VlFuncs E) vl ?v ?hv ?c"
  let ?e = "?c ! ?pos"
  from inv h have hi: "vl_hash_inv E vl h" by (rule vl_inv_hashD)
  then have wf: "hash_wf h" by (simp add: vl_hash_inv_def)
  have pos: "?pos < length ?c" using vl_Find_stored[OF inv h i refl] .
  from vl_Find_match[OF inv h len pos]
  have k: "1 \<le> key ?e" "key ?e \<le> vert_used vl" "vert vl ! (key ?e - 1) = ?v" by auto
  from pos have "?e \<in> set ?c" by simp
  with wf have "?e \<in> hash_elems h" by (auto intro: bucket_hash_elems hash_wf_bucket_lt)
  with hi have "data ?e = PRESENT" by (auto simp: vl_hash_inv_def)
  then have same: "?e\<lparr>data := PRESENT\<rparr> = ?e" by simp
  have hvd: "hash_func (VlFuncs E) vl (secret h) ?v = ?hv"
    using len by (simp add: VlFuncs_def VlHash_def)
  have "Hash_Insert (VlFuncs E) E vl h ?v PRESENT = (0, Some (key ?e), h, vl)"
    unfolding Hash_Insert_def Find_def hvd Let_def
    using pos same by (simp add: VlFuncs_def)
  moreover have "key ?e = (key ?e - 1) + 1" using k by simp
  ultimately show ?thesis using k by (intro exI[of _ "key ?e - 1"]) auto
qed

lemma vl_Find_new:
  assumes inv: "vl_inv E vl" and h: "vert_hash vl = Some h" and len: "length v = vert_size vl"
    and new: "v \<notin> set (vert vl)"
  shows "Find_chain (VlFuncs E) vl v hv (buckets h ! (unat hv mod num_buckets h))
           = length (buckets h ! (unat hv mod num_buckets h))"
proof -
  let ?c = "buckets h ! (unat hv mod num_buckets h)"
  let ?pos = "Find_chain (VlFuncs E) vl v hv ?c"
  have "\<not> ?pos < length ?c"
  proof
    assume pos: "?pos < length ?c"
    from vl_Find_match[OF inv h len pos] have "\<exists>j < length (vert vl). vert vl ! j = v"
      by (intro exI[of _ "key (?c ! ?pos) - 1"]) (auto simp: vert_used_def)
    with new show False by (auto simp: in_set_conv_nth)
  qed
  with Find_chain_le[of "VlFuncs E" vl v hv ?c] show ?thesis by simp
qed

lemma VlCopy_result:
  "VlCopy E vl v = Some (k, vl1) \<Longrightarrow> length v = vert_size vl \<Longrightarrow>
   k = vert_used vl + 1 \<and> vert vl1 = vert vl @ [v] \<and> ind vl1 = ind vl \<and>
   ind_alloc vl1 = ind_alloc vl \<and> vert_hash vl1 = vert_hash vl \<and>
   floats_per_vert vl1 = floats_per_vert vl \<and> vert_size vl1 = vert_size vl \<and>
   primative_type vl1 = primative_type vl"
  by (auto simp: VlCopy_def Let_def split: if_splits)

lemma VlCopy_alloc:
  "VlCopy E vl v = Some (k, vl1) \<Longrightarrow> 0 < vert_alloc vl \<Longrightarrow> vert_used vl \<le> vert_alloc vl \<Longrightarrow>
   vert_alloc vl \<le> UINT_MAX \<Longrightarrow>
   vert_used vl + 1 \<le> vert_alloc vl1 \<and> vert_alloc vl1 \<le> UINT_MAX \<and> 0 < vert_alloc vl1"
  by (auto simp: VlCopy_def Let_def UINT_MAX_def split: if_splits)

lemma Hash_Insert_vl_fail:
  assumes inv: "vl_inv E vl" and h: "vert_hash vl = Some h" and len: "length v = vert_size vl"
    and new: "v \<notin> set (vert vl)" and fail: "\<not> elem_malloc E \<or> VlCopy E vl v = None"
  shows "Hash_Insert (VlFuncs E) E vl h v PRESENT = (-1, None, h, vl)"
  unfolding Hash_Insert_def Find_def Let_def
  using fail vl_Find_new[OF inv h len new] by (auto simp: VlFuncs_def)

lemma Hash_Insert_vl_new:
  assumes inv: "vl_inv E vl" and h: "vert_hash vl = Some h" and len: "length v = vert_size vl"
    and new: "v \<notin> set (vert vl)" and ok: "elem_malloc E" and cp: "VlCopy E vl v = Some (k, vl1)"
  shows "\<exists>h'. Hash_Insert (VlFuncs E) E vl h v PRESENT = (1, Some k, h', vl1) \<and> vl_hash_inv E vl1 h'"
proof -
  let ?hv = "siphash E (secret h) v"
  let ?b = "unat ?hv mod num_buckets h"
  let ?c = "buckets h ! ?b"
  let ?e = "\<lparr>hash_val = ?hv, key = k, data = PRESENT\<rparr>"
  let ?h1 = "h\<lparr>buckets := (buckets h)[?b := ?c @ [?e]]\<rparr>"
  let ?h2 = "if num_items ?h1 div 2 > num_buckets ?h1 then Rehash E ?h1 else ?h1"
  let ?h3 = "?h2\<lparr>num_items := num_items ?h2 + 1\<rparr>"
  from inv h have hi: "vl_hash_inv E vl h" by (rule vl_inv_hashD)
  then have wf: "hash_wf h" by (simp add: vl_hash_inv_def)
  have hvd: "hash_func (VlFuncs E) vl (secret h) v = ?hv"
    using len by (simp add: VlFuncs_def VlHash_def)
  have ins: "Hash_Insert (VlFuncs E) E vl h v PRESENT = (1, Some k, ?h3, vl1)"
    unfolding Hash_Insert_def Find_def hvd Let_def
    using ok cp vl_Find_new[OF inv h len new, of ?hv] by (simp add: VlFuncs_def)
  from VlCopy_result[OF cp len]
  have k: "k = vert_used vl + 1" and v1: "vert vl1 = vert vl @ [v]" by auto
  have wf1: "hash_wf ?h1" and el1: "hash_elems ?h1 = insert ?e (hash_elems h)"
    using hash_append_wf[OF wf, of ?b ?e] by simp_all
  have wf2: "hash_wf ?h2" and el2: "hash_elems ?h2 = insert ?e (hash_elems h)" and s2: "secret ?h2 = secret h"
    using Rehash_wf[OF wf1, of E] wf1 el1 by (auto split: if_splits)
  define h3 where "h3 = ?h3"
  have wf3: "hash_wf h3" using wf2 by (simp add: hash_wf_def h3_def)
  have el3: "hash_elems h3 = insert ?e (hash_elems h)" using el2 by (simp add: hash_elems_def h3_def)
  have s3: "secret h3 = secret h" using s2 by (simp add: h3_def)
  have u1: "vert_used vl1 = vert_used vl + 1" using v1 by (simp add: vert_used_def)
  have old: "\<forall>e \<in> hash_elems h. 1 \<le> key e \<and> key e \<le> vert_used vl1 \<and> data e = PRESENT \<and>
        hash_val e = siphash E (secret h) (vert vl1 ! (key e - 1))"
  proof
    fix e assume e: "e \<in> hash_elems h"
    with hi have a: "1 \<le> key e" "key e \<le> vert_used vl" "data e = PRESENT"
        "hash_val e = siphash E (secret h) (vert vl ! (key e - 1))" by (auto simp: vl_hash_inv_def)
    from a have "key e - 1 < length (vert vl)" by (simp add: vert_used_def)
    then have "vert vl1 ! (key e - 1) = vert vl ! (key e - 1)" by (simp add: v1 nth_append)
    with a u1 show "1 \<le> key e \<and> key e \<le> vert_used vl1 \<and> data e = PRESENT \<and>
        hash_val e = siphash E (secret h) (vert vl1 ! (key e - 1))" by simp
  qed
  have newe: "1 \<le> key ?e \<and> key ?e \<le> vert_used vl1 \<and> data ?e = PRESENT \<and>
        hash_val ?e = siphash E (secret h) (vert vl1 ! (key ?e - 1))"
    using k u1 v1 by (simp add: vert_used_def)
  have cover: "\<forall>i < vert_used vl1. \<exists>e \<in> hash_elems h3. key e = i + 1"
  proof (intro allI impI)
    fix i assume "i < vert_used vl1"
    then consider "i < vert_used vl" | "i = vert_used vl" using u1 by linarith
    then show "\<exists>e \<in> hash_elems h3. key e = i + 1"
    proof cases
      case 1
      with hi obtain e where "e \<in> hash_elems h" "key e = i + 1" by (auto simp: vl_hash_inv_def)
      then show ?thesis unfolding el3 by blast
    next
      case 2
      then have "key ?e = i + 1" using k by simp
      then show ?thesis unfolding el3 by blast
    qed
  qed
  have "\<forall>e \<in> hash_elems h3. 1 \<le> key e \<and> key e \<le> vert_used vl1 \<and> data e = PRESENT \<and>
        hash_val e = siphash E (secret h3) (vert vl1 ! (key e - 1))"
    unfolding el3 s3 using old newe by blast
  with wf3 cover have "vl_hash_inv E vl1 h3"
    unfolding vl_hash_inv_def by blast
  with ins show ?thesis unfolding h3_def by blast
qed

lemma VlCopy_room:
  "0 < vert_size vl \<Longrightarrow> (elem_malloc E \<and> VlCopy E vl v \<noteq> None) = vert_room E vl"
  by (auto simp: VlCopy_def vert_room_def Let_def)

lemma AddInd_room:
  "ind_room E vl \<Longrightarrow> AddInd E vl i = (Inr i, vl\<lparr>ind := ind vl @ [i],
      ind_alloc := (if ind_used vl \<ge> ind_alloc vl then ind_alloc vl * 2 else ind_alloc vl)\<rparr>)"
  by (auto simp: AddInd_def ind_room_def)

lemma AddInd_no_room:
  "\<not> ind_room E vl \<Longrightarrow> AddInd E vl i = (Inl (if (SIZE_MAX div 4) div 2 < ind_alloc vl then ERR_FULL else ERR_NOMEM), vl)"
  by (auto simp: AddInd_def ind_room_def)

lemma AddInd_inv:
  "vl_inv E vl \<Longrightarrow> vl_inv E (snd (AddInd E vl i))"
  by (auto simp: AddInd_def vl_inv_alt vl_hash_inv_def vert_used_def ind_used_def)

lemma AddVert_found:
  assumes inv: "vl_inv E vl" and v: "v \<in> set (vert vl)"
  shows "\<exists>i < vert_used vl. vert vl ! i = v \<and> AddVert E vl v = (Inr i, vl)"
proof -
  from vl_inv_hash[OF inv] obtain h where h: "vert_hash vl = Some h" by blast
  from v obtain i where i: "i < vert_used vl" "vert vl ! i = v"
    by (auto simp: in_set_conv_nth vert_used_def)
  from Hash_Insert_vl_found[OF inv h i(1)] obtain j where
    j: "Hash_Insert (VlFuncs E) E vl h v PRESENT = (0, Some (j + 1), h, vl)"
       "j < vert_used vl" "vert vl ! j = v" using i(2) by auto
  have "vl\<lparr>vert_hash := Some h\<rparr> = vl" using h by simp
  then have "AddVert E vl v = (Inr j, vl)"
    using h j(1) by (simp add: AddVert_def)
  with j show ?thesis by blast
qed

lemma AddVert_new:
  assumes inv: "vl_inv E vl" and len: "length v = vert_size vl" and new: "v \<notin> set (vert vl)"
    and room: "vert_room E vl"
  shows "\<exists>vl'. AddVert E vl v = (Inr (vert_used vl), vl') \<and> vert vl' = vert vl @ [v] \<and>
            ind vl' = ind vl \<and> ind_alloc vl' = ind_alloc vl \<and> vl_inv E vl'"
proof -
  from vl_inv_hash[OF inv] obtain h where h: "vert_hash vl = Some h" by blast
  from inv have sz: "0 < vert_size vl" by (auto simp: vl_inv_alt sizeof_float_def)
  from room VlCopy_room[OF sz, of E v] obtain k vl1 where
    ok: "elem_malloc E" and cp: "VlCopy E vl v = Some (k, vl1)" by auto
  from Hash_Insert_vl_new[OF inv h len new ok cp] obtain h' where
    ins: "Hash_Insert (VlFuncs E) E vl h v PRESENT = (1, Some k, h', vl1)"
    and hi: "vl_hash_inv E vl1 h'" by blast
  note r = VlCopy_result[OF cp len]
  from inv have "0 < vert_alloc vl" "vert_used vl \<le> vert_alloc vl" "vert_alloc vl \<le> UINT_MAX"
    by (auto simp: vl_inv_alt)
  note al = VlCopy_alloc[OF cp this]
  let ?vl' = "vl1\<lparr>vert_hash := Some h'\<rparr>"
  have res: "AddVert E vl v = (Inr (vert_used vl), ?vl')"
    using h ins r by (simp add: AddVert_def)
  have hi': "vl_hash_inv E ?vl' h'"
    using hi by (simp add: vl_hash_inv_def vert_used_def)
  have "vl_inv E ?vl'"
    unfolding vl_inv_alt using inv r al new len hi'
    by (auto simp: vl_inv_alt vert_used_def ind_used_def)
  with res r show ?thesis by auto
qed

lemma AddVert_fail:
  assumes inv: "vl_inv E vl" and len: "length v = vert_size vl" and new: "v \<notin> set (vert vl)"
    and room: "\<not> vert_room E vl"
  shows "AddVert E vl v = (Inl ERR_HASH, vl)"
proof -
  from vl_inv_hash[OF inv] obtain h where h: "vert_hash vl = Some h" by blast
  from inv have sz: "0 < vert_size vl" by (auto simp: vl_inv_alt sizeof_float_def)
  from room VlCopy_room[OF sz, of E v] have "\<not> elem_malloc E \<or> VlCopy E vl v = None" by blast
  from Hash_Insert_vl_fail[OF inv h len new this]
  have "Hash_Insert (VlFuncs E) E vl h v PRESENT = (-1, None, h, vl)" .
  moreover have "vl\<lparr>vert_hash := Some h\<rparr> = vl" using h by simp
  ultimately show ?thesis using h by (simp add: AddVert_def)
qed

lemma Hash_New_wf: "Hash_New True sec = Some h \<Longrightarrow> hash_wf h \<and> hash_elems h = {}"
  by (auto simp: Hash_New_def hash_wf_def dist_ok_def hash_elems_def)

lemma LP_VertexList_New_inv:
  "LP_VertexList_New ok sec fpv pt = Some vl \<Longrightarrow> 0 < fpv \<Longrightarrow> vl_inv E vl"
  by (auto simp: LP_VertexList_New_def vl_inv_alt vl_hash_inv_def vert_used_def ind_used_def
      Hash_New_def hash_wf_def dist_ok_def hash_elems_def UINT_MAX_def split: if_splits)

lemma LP_VertexList_Clear_inv: "vl_inv E vl \<Longrightarrow> vl_inv E (LP_VertexList_Clear vl)"
  by (auto simp: LP_VertexList_Clear_def vl_inv_alt vl_hash_inv_def vert_used_def ind_used_def
      Hash_Clear_def hash_wf_def dist_ok_def hash_elems_def)

text \<open>
  Claim C8. \<open>LP_VertexList_AddIndex\<close> reports the out-of-range error exactly when
  \<open>index > vert_used\<close>, and then leaves the list as it is. Every index up to and including
  \<open>vert_used\<close> passes the check: it is appended to the index array and returned, unless the
  index array is full and cannot grow (\<open>ind_room\<close> false), which is a different error and
  changes nothing either.
\<close>

theorem LP_VertexList_AddIndex_range:
  "case LP_VertexList_AddIndex E vl index of (r, vl') \<Rightarrow>
     (r = Inl ERR_RANGE \<longleftrightarrow> vert_used vl < index) \<and>
     (vert_used vl < index \<longrightarrow> vl' = vl) \<and>
     (index \<le> vert_used vl \<and> ind_room E vl \<longrightarrow>
        r = Inr index \<and> ind vl' = ind vl @ [index] \<and> vert vl' = vert vl) \<and>
     (index \<le> vert_used vl \<and> \<not> ind_room E vl \<longrightarrow>
        (r = Inl ERR_FULL \<or> r = Inl ERR_NOMEM) \<and> vl' = vl)"
proof (cases "vert_used vl < index")
  case True
  then show ?thesis by (simp add: LP_VertexList_AddIndex_def)
next
  case False
  show ?thesis
  proof (cases "ind_room E vl")
    case True
    with False show ?thesis by (simp add: LP_VertexList_AddIndex_def AddInd_room)
  next
    case nr: False
    with False show ?thesis by (simp add: LP_VertexList_AddIndex_def AddInd_no_room)
  qed
qed

lemma Add_existing:
  assumes inv: "vl_inv E vl" and v: "v \<in> set (vert vl)"
  shows "\<exists>i < vert_used vl. vert vl ! i = v \<and> LP_VertexList_Add E vl v = AddInd E vl i"
proof -
  from AddVert_found[OF inv v] obtain i where
    i: "i < vert_used vl" "vert vl ! i = v" "AddVert E vl v = (Inr i, vl)" by blast
  then have "LP_VertexList_Add E vl v = AddInd E vl i"
    by (simp add: LP_VertexList_Add_def LP_VertexList_AddIndex_def)
  with i show ?thesis by blast
qed

lemma Add_new:
  assumes inv: "vl_inv E vl" and len: "length v = vert_size vl" and new: "v \<notin> set (vert vl)"
    and room: "vert_room E vl"
  shows "\<exists>vl1. LP_VertexList_Add E vl v = AddInd E vl1 (vert_used vl) \<and> vert vl1 = vert vl @ [v] \<and>
            ind vl1 = ind vl \<and> ind_alloc vl1 = ind_alloc vl \<and> vl_inv E vl1"
proof -
  from AddVert_new[OF inv len new room] obtain vl1 where
    a: "AddVert E vl v = (Inr (vert_used vl), vl1)" "vert vl1 = vert vl @ [v]"
       "ind vl1 = ind vl" "ind_alloc vl1 = ind_alloc vl" "vl_inv E vl1" by blast
  then have "LP_VertexList_Add E vl v = AddInd E vl1 (vert_used vl)"
    by (simp add: LP_VertexList_Add_def LP_VertexList_AddIndex_def vert_used_def)
  with a show ?thesis by blast
qed

lemma Add_fail:
  assumes inv: "vl_inv E vl" and len: "length v = vert_size vl" and new: "v \<notin> set (vert vl)"
    and room: "\<not> vert_room E vl"
  shows "LP_VertexList_Add E vl v = (Inl ERR_HASH, vl)"
  using AddVert_fail[OF inv len new room] by (simp add: LP_VertexList_Add_def)

lemma AddInd_cases:
  "AddInd E vl i = (r, vl') \<Longrightarrow>
     (ind_room E vl \<and> r = Inr i \<and> ind vl' = ind vl @ [i] \<and> vert vl' = vert vl \<and>
        ind_alloc vl \<le> ind_alloc vl') \<or>
     (\<not> ind_room E vl \<and> (r = Inl ERR_FULL \<or> r = Inl ERR_NOMEM) \<and> vl' = vl)"
  by (cases "ind_room E vl") (auto simp: AddInd_room AddInd_no_room split: if_splits)

lemma Add_summary:
  assumes inv: "vl_inv E vl" and len: "length v = vert_size vl"
    and res: "LP_VertexList_Add E vl v = (r, vl')"
  shows "vl_inv E vl'"
    and "v \<in> set (vert vl) \<Longrightarrow> ind_room E vl \<Longrightarrow>
           \<exists>i < vert_used vl. vert vl ! i = v \<and> r = Inr i \<and> vert vl' = vert vl \<and> ind vl' = ind vl @ [i]"
    and "v \<notin> set (vert vl) \<Longrightarrow> vert_room E vl \<Longrightarrow> ind_room E vl \<Longrightarrow>
           r = Inr (vert_used vl) \<and> vert vl' = vert vl @ [v] \<and> ind vl' = ind vl @ [vert_used vl]"
    and "r = Inr i \<Longrightarrow> i < vert_used vl' \<and> vert vl' ! i = v \<and> ind vl' = ind vl @ [i] \<and>
           ind_alloc vl \<le> ind_alloc vl' \<and> (v \<in> set (vert vl) \<or> vert vl' = vert vl @ [v])"
    and "r = Inl e \<Longrightarrow> ind vl' = ind vl"
proof -
  consider (old) "v \<in> set (vert vl)" | (new) "v \<notin> set (vert vl)" "vert_room E vl"
    | (fail) "v \<notin> set (vert vl)" "\<not> vert_room E vl" by blast
  then have "vl_inv E vl' \<and>
    (v \<in> set (vert vl) \<longrightarrow> ind_room E vl \<longrightarrow>
           (\<exists>i < vert_used vl. vert vl ! i = v \<and> r = Inr i \<and> vert vl' = vert vl \<and> ind vl' = ind vl @ [i])) \<and>
    (v \<notin> set (vert vl) \<longrightarrow> vert_room E vl \<longrightarrow> ind_room E vl \<longrightarrow>
           r = Inr (vert_used vl) \<and> vert vl' = vert vl @ [v] \<and> ind vl' = ind vl @ [vert_used vl]) \<and>
    (r = Inr i \<longrightarrow> i < vert_used vl' \<and> vert vl' ! i = v \<and> ind vl' = ind vl @ [i] \<and>
           ind_alloc vl \<le> ind_alloc vl' \<and> (v \<in> set (vert vl) \<or> vert vl' = vert vl @ [v])) \<and>
    (r = Inl e \<longrightarrow> ind vl' = ind vl)"
  proof cases
    case old
    from Add_existing[OF inv old] obtain j where
      j: "j < vert_used vl" "vert vl ! j = v" "LP_VertexList_Add E vl v = AddInd E vl j" by blast
    with res have a: "AddInd E vl j = (r, vl')" by simp
    from AddInd_inv[OF inv, of j] a have "vl_inv E vl'" by simp
    with AddInd_cases[OF a] j old show ?thesis by (auto simp: vert_used_def)
  next
    case new
    from Add_new[OF inv len new] obtain vl1 where
      b: "LP_VertexList_Add E vl v = AddInd E vl1 (vert_used vl)" "vert vl1 = vert vl @ [v]"
         "ind vl1 = ind vl" "ind_alloc vl1 = ind_alloc vl" "vl_inv E vl1" by blast
    with res have a: "AddInd E vl1 (vert_used vl) = (r, vl')" by simp
    from AddInd_inv[OF b(5), of "vert_used vl"] a have "vl_inv E vl'" by simp
    moreover have "ind_room E vl1 = ind_room E vl" using b by (simp add: ind_room_def ind_used_def)
    ultimately show ?thesis using AddInd_cases[OF a] b new by (auto simp: vert_used_def)
  next
    case fail
    from Add_fail[OF inv len fail] res have "r = Inl ERR_HASH" "vl' = vl" by auto
    with inv fail show ?thesis by auto
  qed
  then show "vl_inv E vl'"
    and "v \<in> set (vert vl) \<Longrightarrow> ind_room E vl \<Longrightarrow>
           \<exists>i < vert_used vl. vert vl ! i = v \<and> r = Inr i \<and> vert vl' = vert vl \<and> ind vl' = ind vl @ [i]"
    and "v \<notin> set (vert vl) \<Longrightarrow> vert_room E vl \<Longrightarrow> ind_room E vl \<Longrightarrow>
           r = Inr (vert_used vl) \<and> vert vl' = vert vl @ [v] \<and> ind vl' = ind vl @ [vert_used vl]"
    and "r = Inr i \<Longrightarrow> i < vert_used vl' \<and> vert vl' ! i = v \<and> ind vl' = ind vl @ [i] \<and>
           ind_alloc vl \<le> ind_alloc vl' \<and> (v \<in> set (vert vl) \<or> vert vl' = vert vl @ [v])"
    and "r = Inl e \<Longrightarrow> ind vl' = ind vl" by blast+
qed

lemma vl_inv_cong: "siphash E' = siphash E \<Longrightarrow> vl_inv E' vl = vl_inv E vl"
  by (simp add: vl_inv_alt vl_hash_inv_def)

text \<open>
  Claim C1. On a vertex list that has not been finalized (\<open>vl_inv\<close>, which
  \<open>LP_VertexList_New\<close> establishes and every operation keeps) and a vertex \<open>v\<close> of
  \<open>vert_size\<close> bytes, \<open>LP_VertexList_Add\<close>
  \<^item> keeps the list well formed;
  \<^item> returns the index of the stored vertex with the same bytes when there is one, leaving
    the vertex array as it is;
  \<^item> appends \<open>v\<close> and returns its new index otherwise;
  in both cases when no allocation fails and no limit is reached (\<open>vert_room\<close>,
  \<open>ind_room\<close>). Whenever it returns an index, that index holds the bytes of \<open>v\<close>, exactly
  one entry, the index returned, has been appended to the index array, and adding the same
  bytes again returns the same index. When it fails the index array is unchanged.
\<close>

theorem LP_VertexList_Add_dedup:
  assumes inv: "vl_inv E vl" and len: "length v = vert_size vl"
  shows "case LP_VertexList_Add E vl v of (r, vl') \<Rightarrow>
     vl_inv E vl' \<and>
     (v \<in> set (vert vl) \<and> ind_room E vl \<longrightarrow>
        (\<exists>i < vert_used vl. vert vl ! i = v \<and> r = Inr i \<and> vert vl' = vert vl \<and>
           ind vl' = ind vl @ [i])) \<and>
     (v \<notin> set (vert vl) \<and> vert_room E vl \<and> ind_room E vl \<longrightarrow>
        r = Inr (vert_used vl) \<and> vert vl' = vert vl @ [v] \<and> ind vl' = ind vl @ [vert_used vl]) \<and>
     (\<forall>i. r = Inr i \<longrightarrow>
        i < vert_used vl' \<and> vert vl' ! i = v \<and> ind vl' = ind vl @ [i] \<and>
        ind_used vl' = ind_used vl + 1 \<and> ind_alloc vl \<le> ind_alloc vl' \<and>
        (\<forall>E'. siphash E' = siphash E \<and> ind_room E' vl' \<longrightarrow>
           fst (LP_VertexList_Add E' vl' v) = Inr i)) \<and>
     (\<forall>e. r = Inl e \<longrightarrow> ind vl' = ind vl)"
proof -
  obtain r vl' where res: "LP_VertexList_Add E vl v = (r, vl')" by (cases "LP_VertexList_Add E vl v")
  note s = Add_summary[OF inv len res]
  have again: "fst (LP_VertexList_Add E' vl' v) = Inr i"
    if r: "r = Inr i" and E': "siphash E' = siphash E" and room: "ind_room E' vl'" for i E'
  proof -
    from s(4)[OF r] have i: "i < vert_used vl'" "vert vl' ! i = v" by auto
    then have mem: "v \<in> set (vert vl')" by (auto simp: vert_used_def)
    from s(1) vl_inv_cong[OF E', of vl'] have inv': "vl_inv E' vl'" by blast
    from s(1) have len': "length v = vert_size vl'" using mem by (auto simp: vl_inv_alt)
    obtain r2 vl2 where res2: "LP_VertexList_Add E' vl' v = (r2, vl2)"
      by (cases "LP_VertexList_Add E' vl' v")
    from Add_summary(2)[OF inv' len' res2 mem room] obtain j where
      j: "j < vert_used vl'" "vert vl' ! j = v" "r2 = Inr j" by blast
    from s(1) have "distinct (vert vl')" by (simp add: vl_inv_alt)
    with i j have "j = i" unfolding vert_used_def by (metis nth_eq_iff_index_eq)
    with j res2 show ?thesis by simp
  qed
  have iu: "ind_used vl' = ind_used vl + 1" if "r = Inr i" for i
    using s(4)[OF that] by (simp add: ind_used_def)
  have c1: "v \<in> set (vert vl) \<and> ind_room E vl \<longrightarrow>
        (\<exists>i < vert_used vl. vert vl ! i = v \<and> r = Inr i \<and> vert vl' = vert vl \<and>
           ind vl' = ind vl @ [i])" using s(2) by blast
  have c2: "v \<notin> set (vert vl) \<and> vert_room E vl \<and> ind_room E vl \<longrightarrow>
        r = Inr (vert_used vl) \<and> vert vl' = vert vl @ [v] \<and> ind vl' = ind vl @ [vert_used vl]"
    using s(3) by blast
  have c3: "\<forall>i. r = Inr i \<longrightarrow>
        i < vert_used vl' \<and> vert vl' ! i = v \<and> ind vl' = ind vl @ [i] \<and>
        ind_used vl' = ind_used vl + 1 \<and> ind_alloc vl \<le> ind_alloc vl' \<and>
        (\<forall>E'. siphash E' = siphash E \<and> ind_room E' vl' \<longrightarrow>
           fst (LP_VertexList_Add E' vl' v) = Inr i)"
  proof (intro allI impI)
    fix i assume r: "r = Inr i"
    from s(4)[OF r] iu[OF r] again[OF r]
    show "i < vert_used vl' \<and> vert vl' ! i = v \<and> ind vl' = ind vl @ [i] \<and>
        ind_used vl' = ind_used vl + 1 \<and> ind_alloc vl \<le> ind_alloc vl' \<and>
        (\<forall>E'. siphash E' = siphash E \<and> ind_room E' vl' \<longrightarrow>
           fst (LP_VertexList_Add E' vl' v) = Inr i)" by simp
  qed
  have c4: "\<forall>e. r = Inl e \<longrightarrow> ind vl' = ind vl" using s(5) by blast
  from s(1) c1 c2 c3 c4 show ?thesis unfolding res prod.case by (intro conjI)
qed

theorem LP_VertexList_Add_dedup_witness:
  "vl_inv E0 vl0 \<and> length [1, 2, 3, 4 :: byte] = vert_size vl0 \<and>
   fst (LP_VertexList_Add E0 vl0 [1, 2, 3, 4]) = Inr 0 \<and>
   vert (snd (LP_VertexList_Add E0 vl0 [1, 2, 3, 4])) = [[1, 2, 3, 4]] \<and>
   ind (snd (LP_VertexList_Add E0 vl0 [1, 2, 3, 4])) = [0] \<and>
   fst (LP_VertexList_Add E0 (snd (LP_VertexList_Add E0 vl0 [1, 2, 3, 4])) [1, 2, 3, 4]) = Inr 0"
proof -
  have v0: "vl0 = \<lparr>floats_per_vert = 1, vert_size = 4, primative_type = lp_pt_point,
                 vert_alloc = 64, vert = [], ind_alloc = 64, ind = [],
                 vert_hash = Hash_New True []\<rparr>"
    by (simp add: vl0_def LP_VertexList_New_def SIZE_MAX_def sizeof_float_def)
  have inv: "vl_inv E0 vl0"
    by (rule LP_VertexList_New_inv[of True "[]" 1 lp_pt_point])
       (simp_all add: vl0_def LP_VertexList_New_def SIZE_MAX_def sizeof_float_def)
  have len: "length [1, 2, 3, 4 :: byte] = vert_size vl0" by (simp add: v0)
  have new: "[1, 2, 3, 4] \<notin> set (vert vl0)" by (simp add: v0)
  have vr: "vert_room E0 vl0" by (simp add: vert_room_def E0_def v0 vert_used_def)
  have ir: "ind_room E0 vl0" by (simp add: ind_room_def v0 ind_used_def)
  obtain r vl' where res: "LP_VertexList_Add E0 vl0 [1, 2, 3, 4] = (r, vl')"
    by (cases "LP_VertexList_Add E0 vl0 [1, 2, 3, 4]")
  from LP_VertexList_Add_dedup[OF inv len] new vr ir
  have a: "r = Inr 0" "vert vl' = [[1, 2, 3, 4]]" "ind vl' = [0]"
    and b: "\<forall>i. r = Inr i \<longrightarrow> (\<forall>E'. siphash E' = siphash E0 \<and> ind_room E' vl' \<longrightarrow>
           fst (LP_VertexList_Add E' vl' [1, 2, 3, 4]) = Inr i)"
    and inv': "vl_inv E0 vl'" and al: "ind_alloc vl0 \<le> ind_alloc vl'"
    unfolding res by (simp_all add: v0 vert_used_def)
  from al a have "ind_room E0 vl'" by (simp add: ind_room_def ind_used_def v0)
  with a b have "fst (LP_VertexList_Add E0 vl' [1, 2, 3, 4]) = Inr 0" by blast
  with inv len a res show ?thesis by simp
qed

theorem LP_VertexList_AddIndex_range_witness:
  "fst (LP_VertexList_AddIndex E0 vl0 0) = Inr 0 \<and>
   ind (snd (LP_VertexList_AddIndex E0 vl0 0)) = [0] \<and>
   fst (LP_VertexList_AddIndex E0 vl0 1) = Inl ERR_RANGE \<and>
   snd (LP_VertexList_AddIndex E0 vl0 1) = vl0"
proof -
  have v0: "vl0 = \<lparr>floats_per_vert = 1, vert_size = 4, primative_type = lp_pt_point,
                 vert_alloc = 64, vert = [], ind_alloc = 64, ind = [],
                 vert_hash = Hash_New True []\<rparr>"
    by (simp add: vl0_def LP_VertexList_New_def SIZE_MAX_def sizeof_float_def)
  have ir: "ind_room E0 vl0" by (simp add: ind_room_def v0 ind_used_def)
  have u: "vert_used vl0 = 0" by (simp add: v0 vert_used_def)
  have i0: "ind vl0 = []" by (simp add: v0)
  from LP_VertexList_AddIndex_range[where E = E0 and vl = vl0 and index = 0]
    LP_VertexList_AddIndex_range[where E = E0 and vl = vl0 and index = 1] ir u i0
  show ?thesis by (auto split: prod.splits)
qed

section \<open>The vertex table of a vef\<close>

lemma FixedFuncs_sel:
  "hash_func (FixedFuncs E n) u sec k = siphash E sec (take n k)"
  "cmp (FixedFuncs E n) u a b = memcmp a b n"
  "copy_key (FixedFuncs E n) u k = (if key_malloc E then Some (take n k, u) else None)"
  "copy_data (FixedFuncs E n) u d = Some d"
  by (simp_all add: FixedFuncs_def)

lemma fixed_Lookup:
  assumes inv: "fixed_hash_inv E n h" and len: "length pt = n"
  shows "(Hash_Lookup (FixedFuncs E n) u h pt \<noteq> None) = (pt \<in> key ` hash_elems h)"
proof -
  let ?F = "FixedFuncs E n :: (unit, byte list, byte list, 'a) hash_funcs"
  let ?hv = "siphash E (secret h) pt"
  let ?b = "unat ?hv mod num_buckets h"
  let ?c = "buckets h ! ?b"
  let ?pos = "Find_chain ?F u pt ?hv ?c"
  from inv have wf: "hash_wf h" by (simp add: fixed_hash_inv_def)
  have hvd: "hash_func ?F u (secret h) pt = ?hv" using len by (simp add: FixedFuncs_def)
  have lk: "(Hash_Lookup ?F u h pt \<noteq> None) = (?pos < length ?c)"
    unfolding Hash_Lookup_def Find_def hvd Let_def by simp
  have "(?pos < length ?c) = (pt \<in> key ` hash_elems h)"
  proof
    assume pos: "?pos < length ?c"
    then have "?c ! ?pos \<in> set ?c" by simp
    with wf have el: "?c ! ?pos \<in> hash_elems h" by (auto intro: bucket_hash_elems hash_wf_bucket_lt)
    with inv have "length (key (?c ! ?pos)) = n" by (auto simp: fixed_hash_inv_def)
    moreover from Find_chain_found[OF pos] have "memcmp (key (?c ! ?pos)) pt n = 0"
      by (simp add: FixedFuncs_def)
    ultimately have "key (?c ! ?pos) = pt" using len by (simp add: memcmp_eq)
    with el show "pt \<in> key ` hash_elems h" by force
  next
    assume "pt \<in> key ` hash_elems h"
    then obtain e where e: "e \<in> hash_elems h" "key e = pt" by auto
    with inv have hv: "hash_val e = ?hv" by (auto simp: fixed_hash_inv_def)
    from hash_elems_bucket[OF wf e(1)] hv have mem: "e \<in> set ?c" by simp
    have "cmp ?F u (key e) pt = 0" using e len by (simp add: FixedFuncs_def memcmp_eq)
    with mem hv show "?pos < length ?c" by (rule Find_chain_exists)
  qed
  with lk show ?thesis by simp
qed

lemma fixed_Insert_new:
  assumes inv: "fixed_hash_inv E n h" and len: "length k = n"
    and new: "Hash_Lookup (FixedFuncs E n) u h k = None"
  shows "(\<not> (elem_malloc E \<and> key_malloc E) \<longrightarrow> Hash_Insert (FixedFuncs E n) E u h k d = (-1, None, h, u)) \<and>
         (elem_malloc E \<and> key_malloc E \<longrightarrow>
            (\<exists>h'. Hash_Insert (FixedFuncs E n) E u h k d = (1, Some k, h', u) \<and>
                  fixed_hash_inv E n h' \<and> key ` hash_elems h' = insert k (key ` hash_elems h)))"
proof -
  let ?F = "FixedFuncs E n :: (unit, byte list, byte list, 'a) hash_funcs"
  let ?hv = "siphash E (secret h) k"
  let ?b = "unat ?hv mod num_buckets h"
  let ?c = "buckets h ! ?b"
  let ?e = "\<lparr>hash_val = ?hv, key = k, data = d\<rparr>"
  let ?h1 = "h\<lparr>buckets := (buckets h)[?b := ?c @ [?e]]\<rparr>"
  let ?h2 = "if num_items ?h1 div 2 > num_buckets ?h1 then Rehash E ?h1 else ?h1"
  from inv have wf: "hash_wf h" by (simp add: fixed_hash_inv_def)
  have hvd: "hash_func ?F u (secret h) k = ?hv" using len by (simp add: FixedFuncs_def)
  from new have pos: "\<not> Find_chain ?F u k ?hv ?c < length ?c"
    unfolding Hash_Lookup_def Find_def hvd Let_def by (simp split: if_splits)
  have fail: "\<not> (elem_malloc E \<and> key_malloc E) \<longrightarrow> Hash_Insert ?F E u h k d = (-1, None, h, u)"
    unfolding Hash_Insert_def Find_def hvd Let_def using pos by (auto simp: FixedFuncs_sel)
  define h3 where "h3 = ?h2\<lparr>num_items := num_items ?h2 + 1\<rparr>"
  have ins: "elem_malloc E \<and> key_malloc E \<longrightarrow> Hash_Insert ?F E u h k d = (1, Some k, h3, u)"
    unfolding Hash_Insert_def Find_def hvd Let_def h3_def using pos len by (simp add: FixedFuncs_sel)
  have wf1: "hash_wf ?h1" and el1: "hash_elems ?h1 = insert ?e (hash_elems h)"
    using hash_append_wf[OF wf, of ?b ?e] by simp_all
  have wf2: "hash_wf ?h2" and el2: "hash_elems ?h2 = insert ?e (hash_elems h)" and s2: "secret ?h2 = secret h"
    using Rehash_wf[OF wf1, of E] wf1 el1 by (auto split: if_splits)
  have wf3: "hash_wf h3" using wf2 by (simp add: hash_wf_def h3_def)
  have el3: "hash_elems h3 = insert ?e (hash_elems h)" using el2 by (simp add: hash_elems_def h3_def)
  have s3: "secret h3 = secret h" using s2 by (simp add: h3_def)
  have "\<forall>e \<in> hash_elems h3. length (key e) = n \<and> hash_val e = siphash E (secret h3) (key e)"
    unfolding el3 s3 using inv len by (auto simp: fixed_hash_inv_def)
  with wf3 have "fixed_hash_inv E n h3" by (simp add: fixed_hash_inv_def)
  moreover have "key ` hash_elems h3 = insert k (key ` hash_elems h)" unfolding el3 by simp
  ultimately show ?thesis using fail ins by blast
qed

lemma Vert_New_vertex:
  assumes inv: "fixed_hash_inv E 12 (verts vef)" and len: "length pt = 12"
  shows "(obj_malloc E \<and> elem_malloc E \<and> key_malloc E \<longrightarrow> Vert_New E vef pt \<noteq> None) \<and>
         (\<forall>v vef'. Vert_New E vef pt = Some (v, vef') \<longrightarrow>
            fixed_hash_inv E 12 (verts vef') \<and> vef_verts vef' = insert pt (vef_verts vef))"
proof (cases "Hash_Lookup (FixedFuncs E 12) () (verts vef) pt")
  case None
  note n = fixed_Insert_new[OF inv len None, of pt]
  show ?thesis
  proof (cases "elem_malloc E \<and> key_malloc E")
    case True
    with n obtain h' where h': "Hash_Insert (FixedFuncs E 12) E () (verts vef) pt pt = (1, Some pt, h', ())"
      "fixed_hash_inv E 12 h'" "key ` hash_elems h' = insert pt (key ` hash_elems (verts vef))"
      by blast
    then show ?thesis using None len by (auto simp: Vert_New_def vef_verts_def)
  next
    case False
    with n have "Hash_Insert (FixedFuncs E 12) E () (verts vef) pt pt = (-1, None, verts vef, ())"
      by blast
    then show ?thesis using None len False by (auto simp: Vert_New_def)
  qed
next
  case (Some a)
  with fixed_Lookup[OF inv len, of "()"] have "pt \<in> vef_verts vef" by (simp add: vef_verts_def)
  with Some inv show ?thesis by (auto simp: Vert_New_def)
qed

text \<open>
  Claim C10. When the 12 bytes of \<open>pt\<close> are those of a vertex of the vef (a key of its
  vertex table, which is what \<open>Vert_New\<close> enters), \<open>Vef_ConvexInteriorDist\<close> returns 0 and
  leaves \<open>*start\<close> as it is, whatever the face search would have computed.
\<close>

theorem Vef_ConvexInteriorDist_vertex:
  assumes inv: "fixed_hash_inv E 12 (verts vef)" and len: "length pt = 12"
    and v: "pt \<in> vef_verts vef"
  shows "Vef_ConvexInteriorDist E search vef pt start = (0, start)"
  using fixed_Lookup[OF inv len, of "()"] v
  by (simp add: Vef_ConvexInteriorDist_def vef_verts_def)

theorem Vef_ConvexInteriorDist_vertex_witness:
  "fixed_hash_inv E0 12 (verts vef1) \<and> length pt0 = 12 \<and> pt0 \<in> vef_verts vef1 \<and>
   Vef_ConvexInteriorDist E0 (\<lambda>v p s. (1 :: real, s)) vef1 pt0 (None :: nat option) = (0, None)"
proof -
  have inv0: "fixed_hash_inv E0 12 (verts vef0)"
    by (simp add: vef0_def fixed_hash_inv_def Hash_New_def hash_wf_def dist_ok_def hash_elems_def)
  have len: "length pt0 = 12" by (simp add: pt0_def)
  from Vert_New_vertex[OF inv0 len] obtain v vef' where n: "Vert_New E0 vef0 pt0 = Some (v, vef')"
    by (auto simp: E0_def)
  with Vert_New_vertex[OF inv0 len] have inv: "fixed_hash_inv E0 12 (verts vef1)"
    and mem: "pt0 \<in> vef_verts vef1" by (auto simp: vef1_def)
  from Vef_ConvexInteriorDist_vertex[OF inv len mem] inv len mem show ?thesis by simp
qed

section \<open>Vector helpers\<close>

lemma sqrt_sq: "0 \<le> a \<Longrightarrow> sqrt (a * a) = a"
  by simp

section \<open>Aggregation BVH\<close>

lemma BvhVl_New_root9:
  "foldl (\<lambda>n vt. Array_Add_point (foldl (BvhVl_bounds vt) n [0, 1, 2]) vt) BNode_New pts9 = root9"
  by (simp add: pts9_def root9_def BNode_New_def Array_Add_point_def BvhVl_bounds_def)

lemma Split_place9: "foldl (Split_place 0 (Fin 5)) (BNode_New, BNode_New) pts9 = (a9, b9)"
  by (simp add: pts9_def a9_def b9_def BNode_New_def Array_Add_point_def Split_place_def Split_bounds_def)

lemma ftree9: "foldl (\<lambda>t p. FTree_Insert_key (p ! 0) t) [] pts9 = [Fin 0, Fin 0, Fin 10, Fin 10]"
  by (simp add: pts9_def)

lemma median9: "FTree_Median_key [Fin 0, Fin 0, Fin 10, Fin 10] = Fin 10"
  by (simp add: FTree_Median_key_def)

lemma Split_leaf9: "Split_BNode (Suc n) E a9 d = Some (0, a9)" "Split_BNode (Suc n) E b9 d = Some (0, b9)"
  by (simp_all add: a9_def b9_def)

lemma root9_sel: "node_points root9 = Some pts9" "node_max root9 = [Fin 10, Fin 1, Fin 0]"
  "node_min root9 = [Fin 0, Fin 0, Fin 0]" "node_a root9 = None" "node_b root9 = None"
  "length pts9 = 4"
  by (simp_all add: root9_def pts9_def)

lemma Split_root9: "Split_BNode (Suc (Suc 0)) E0 root9 (Fin 1) = Some (0, bvh9)"
proof -
  have e: "obj_malloc E0" by (simp add: E0_def)
  show ?thesis
    apply (subst Split_BNode.simps)
    apply (simp add: root9_sel Let_def ftree9 median9 e Split_place9 Split_leaf9 rnd_eval del: Split_BNode.simps)
    apply (simp add: bvh9_def a9_def b9_def)
    done
qed

text \<open>
  Claim C9 does not hold of the code. \<open>Split_BNode\<close> compares \<open>vert[axis]\<close>, not
  \<open>vert[count]\<close>, with \<open>max[count]\<close>: on the four points (0,0,0), (0,1,0), (10,0,0),
  (10,1,0) with threshold 1 the split is along x at 5 (the median key 10 is the box's
  \<open>max\<close>, so the midpoint is taken), and the first child holds (0,0,0) and (0,1,0) in a
  box whose \<open>max\<close> is (0,0,0).
\<close>

theorem BvhVl_New_bounds_broken:
  "BvhVl_New 2 E0 pts9 (Fin 1) = Some (Some bvh9) \<and>
   node_a bvh9 = Some a9 \<and>
   node_points a9 = Some [[Fin 0, Fin 0, Fin 0], [Fin 0, Fin 1, Fin 0]] \<and>
   node_max a9 = [Fin 0, Fin 0, Fin 0] \<and>
   \<not> bounds_ok bvh9"
proof -
  have e: "obj_malloc E0" by (simp add: E0_def)
  have s: "Split_BNode 2 E0 root9 (Fin 1) = Some (0, bvh9)"
    using Split_root9 by (simp only: numeral_2_eq_2)
  have a: "BvhVl_New 2 E0 pts9 (Fin 1) = Some (Some bvh9)"
    unfolding BvhVl_New_def BvhVl_New_root9 Let_def s
    by (simp add: e)
  have b: "\<not> bounds_ok bvh9" by (simp add: bvh9_def)
  from a b show ?thesis by (simp add: bvh9_def a9_def)
qed

section \<open>Plane cut\<close>

lemma PlaneCut_plane_sel:
  "plane_norm (PlaneCut_plane nrm d) = scaled_normal nrm"
  "plane_dist (PlaneCut_plane nrm d) = d"
  by (simp_all add: PlaneCut_plane_def scaled_normal_def Normalize_def Norm_def Norm2_def Dot_def
      Let_def)

lemma PC_Vert_New_cut:
  "PC_Vert_New p (Some (PlaneCut_plane nrm d)) = cut_vert (scaled_normal nrm) d p"
  by (simp add: PC_Vert_New_def PlaneCut_plane_sel cut_vert_def cut_dist_def Norm_def Norm2_def
      Dot_def Let_def)

lemma cut_vert_point: "cut_vert m d [p ! 0, p ! 1, p ! 2] = cut_vert m d p"
  by (simp add: cut_vert_def cut_dist_def)

lemma point_cut_vert: "point (cut_vert m d p) = [p ! 0, p ! 1, p ! 2]"
  by (simp add: cut_vert_def)

lemma PC_Edge_New_vld: "inter_vld (PC_Edge_New v1 v2 (Some pl)) = straddle v1 v2"
  by (simp add: PC_Edge_New_def straddle_def Let_def)

lemma PC_Edge_New_verts: "edge_vert (PC_Edge_New v1 v2 pl) = (v1, v2)"
  by (simp add: PC_Edge_New_def Let_def)

lemma PC_Edge_New_inter:
  "straddle v1 v2 \<Longrightarrow> inter (PC_Edge_New v1 v2 (Some pl)) = cut_point v1 v2"
  by (simp add: PC_Edge_New_def straddle_def cut_point_def Let_def)

lemma straddle_sym: "straddle v1 v2 = straddle v2 v1"
  by (auto simp: straddle_def)

lemma flt_pos_neg: "(x::float) > 0 \<Longrightarrow> \<not> x < 0"
  by (cases x) (simp_all add: less_float_def flt_def zero_float_def)

lemma straddle_sides: "straddle v1 v2 \<Longrightarrow>
   (side_of v1 = 0 \<and> side_of v2 = 1) \<or> (side_of v1 = 1 \<and> side_of v2 = 0)"
  unfolding straddle_def side_of_def using flt_pos_neg by auto

lemma Make_Quad_points:
  "(\<exists>op \<in> set (Make_Quad p1 p2 p3 p4 s). op_side_point s p3 op) \<and>
   (\<exists>op \<in> set (Make_Quad p1 p2 p3 p4 s). op_side_point s p4 op)"
  by (simp add: Make_Quad_def op_side_point_def)

lemma switch1:
  assumes st: "straddle va vb" and r: "ops = [Add2dPoint 0 q, Add2dPoint 1 q, Add2dPoint 0 w, Add2dPoint 1 w,
      Face_New (side_of vb) x1 x2 q, Face_New (side_of va) y1 y2 q]"
  shows "edge_done ops q"
  using straddle_sides[OF st] by (auto simp: edge_done_def r op_side_point_def)

lemma switch2:
  assumes st: "straddle vi1 vi2" and r: "ops = [Add2dPoint 0 q1, Add2dPoint 1 q1, Add2dPoint 0 q2, Add2dPoint 1 q2,
      Face_New (side_of vi2) x1 q2 q1] @ Make_Quad y1 y2 q1 q2 (side_of vi1)"
  shows "edge_done ops q1 \<and> edge_done ops q2"
proof -
  from Make_Quad_points[of y1 y2 q1 q2 "side_of vi1"] obtain o1 o2 where
    o: "o1 \<in> set (Make_Quad y1 y2 q1 q2 (side_of vi1))" "op_side_point (side_of vi1) q1 o1"
       "o2 \<in> set (Make_Quad y1 y2 q1 q2 (side_of vi1))" "op_side_point (side_of vi1) q2 o2" by blast
  have f: "op_side_point (side_of vi2) q1 (Face_New (side_of vi2) x1 q2 q1)"
          "op_side_point (side_of vi2) q2 (Face_New (side_of vi2) x1 q2 q1)"
    by (simp_all add: op_side_point_def)
  from straddle_sides[OF st] show ?thesis
  proof
    assume "side_of vi1 = 0 \<and> side_of vi2 = 1"
    with o f show ?thesis unfolding edge_done_def r by (auto simp del: One_nat_def)
  next
    assume "side_of vi1 = 1 \<and> side_of vi2 = 0"
    with o f show ?thesis unfolding edge_done_def r by (auto simp del: One_nat_def)
  qed
qed

lemma Make_Faces_switch_both:
  assumes e: "e = [ea, eb, ec]" and v: "v = [va, vb, vc]"
    and ia: "inter_vld ea = straddle va vb" and ib: "inter_vld eb = straddle vb vc"
    and ic: "inter_vld ec = straddle vc va"
    and r: "Make_Faces_switch pt v e = (0, ops)"
  shows "(inter_vld ea \<longrightarrow> edge_done ops (inter ea)) \<and> (inter_vld eb \<longrightarrow> edge_done ops (inter eb)) \<and>
         (inter_vld ec \<longrightarrow> edge_done ops (inter ec))"
proof (cases "inter_vld ea"; cases "inter_vld eb"; cases "inter_vld ec")
  assume a: "inter_vld ea" "inter_vld eb" "inter_vld ec"
  with r show ?thesis by (simp add: Make_Faces_switch_def e v)
next
  assume a: "inter_vld ea" "inter_vld eb" "\<not> inter_vld ec"
  with r have "ops = [Add2dPoint 0 (inter ea), Add2dPoint 1 (inter ea), Add2dPoint 0 (inter eb), Add2dPoint 1 (inter eb),
      Face_New (side_of vb) (point vb) (inter eb) (inter ea)] @
      Make_Quad (point vc) (point va) (inter ea) (inter eb) (side_of va)"
    by (simp add: Make_Faces_switch_def e v Let_def)
  from switch2[OF _ this] a ia show ?thesis by simp
next
  assume a: "inter_vld ea" "\<not> inter_vld eb" "inter_vld ec"
  with r have "ops = [Add2dPoint 0 (inter ec), Add2dPoint 1 (inter ec), Add2dPoint 0 (inter ea), Add2dPoint 1 (inter ea),
      Face_New (side_of va) (point va) (inter ea) (inter ec)] @
      Make_Quad (point vb) (point vc) (inter ec) (inter ea) (side_of vc)"
    by (simp add: Make_Faces_switch_def e v Let_def)
  from switch2[OF _ this] a ic show ?thesis by simp
next
  assume a: "inter_vld ea" "\<not> inter_vld eb" "\<not> inter_vld ec"
  with r have "ops = [Add2dPoint 0 (inter ea), Add2dPoint 1 (inter ea), Add2dPoint 0 (point vc), Add2dPoint 1 (point vc),
      Face_New (side_of vb) (point vb) (point vc) (inter ea), Face_New (side_of va) (point vc) (point va) (inter ea)]"
    by (simp add: Make_Faces_switch_def e v Let_def split: if_splits)
  from switch1[OF _ this] a ia show ?thesis by simp
next
  assume a: "\<not> inter_vld ea" "inter_vld eb" "inter_vld ec"
  with r have "ops = [Add2dPoint 0 (inter eb), Add2dPoint 1 (inter eb), Add2dPoint 0 (inter ec), Add2dPoint 1 (inter ec),
      Face_New (side_of vc) (point vc) (inter ec) (inter eb)] @
      Make_Quad (point va) (point vb) (inter eb) (inter ec) (side_of vb)"
    by (simp add: Make_Faces_switch_def e v Let_def)
  from switch2[OF _ this] a ib show ?thesis by simp
next
  assume a: "\<not> inter_vld ea" "inter_vld eb" "\<not> inter_vld ec"
  with r have "ops = [Add2dPoint 0 (inter eb), Add2dPoint 1 (inter eb), Add2dPoint 0 (point va), Add2dPoint 1 (point va),
      Face_New (side_of vc) (point vc) (point va) (inter eb), Face_New (side_of vb) (point va) (point vb) (inter eb)]"
    by (simp add: Make_Faces_switch_def e v Let_def split: if_splits)
  from switch1[OF _ this] a ib show ?thesis by simp
next
  assume a: "\<not> inter_vld ea" "\<not> inter_vld eb" "inter_vld ec"
  with r have "ops = [Add2dPoint 0 (inter ec), Add2dPoint 1 (inter ec), Add2dPoint 0 (point vb), Add2dPoint 1 (point vb),
      Face_New (side_of va) (point va) (point vb) (inter ec), Face_New (side_of vc) (point vb) (point vc) (inter ec)]"
    by (simp add: Make_Faces_switch_def e v Let_def split: if_splits)
  from switch1[OF _ this] a ic show ?thesis by simp
next
  assume a: "\<not> inter_vld ea" "\<not> inter_vld eb" "\<not> inter_vld ec"
  then show ?thesis by simp
qed

lemma edge_done_mono: "edge_done ops q \<Longrightarrow> set ops \<subseteq> set ops' \<Longrightarrow> edge_done ops' q"
  unfolding edge_done_def by blast

lemma cut_edge_ok_mono:
  "cut_edge_ok ops e \<Longrightarrow> set ops \<subseteq> set ops' \<Longrightarrow> cut_edge_ok ops' e"
  unfolding cut_edge_ok_def using edge_done_mono by blast

lemma cut_edge_in_mono:
  "cut_edge_in ops sh u w \<Longrightarrow> set ops \<subseteq> set ops' \<Longrightarrow>
   set (shape_edges sh) \<subseteq> set (shape_edges sh') \<Longrightarrow> cut_edge_in ops' sh' u w"
  unfolding cut_edge_in_def using cut_edge_ok_mono by blast

lemma cut_tri_ok_mono:
  assumes "cut_tri_ok m d ops sh t" and "set ops \<subseteq> set ops'"
    and "set (shape_verts sh) \<subseteq> set (shape_verts sh')"
    and "set (shape_edges sh) \<subseteq> set (shape_edges sh')"
  shows "cut_tri_ok m d ops' sh' t"
proof -
  obtain p1 p2 p3 where t: "t = (p1, p2, p3)" by (cases t) auto
  from assms(1) cut_edge_in_mono[OF _ assms(2,4)] assms(3) show ?thesis
    unfolding t cut_tri_ok_def Let_def prod.case by blast
qed

lemma Shape_Vert_New_cut:
  assumes pl: "pl = PlaneCut_plane nrm d" and m: "m = scaled_normal nrm"
    and vi: "vinv m d sh" and r: "Shape_Vert_New p (Some pl) sh = (v, sh')"
  shows "v = cut_vert m d p \<and> vinv m d sh' \<and> shape_edges sh' = shape_edges sh \<and>
         v \<in> set (shape_verts sh') \<and> set (shape_verts sh) \<subseteq> set (shape_verts sh')"
proof (cases "find (\<lambda>v. point v = [p ! 0, p ! 1, p ! 2]) (shape_verts sh)")
  case None
  with r have e: "v = PC_Vert_New p (Some pl)" "sh' = sh\<lparr>shape_verts := shape_verts sh @ [v]\<rparr>"
    by (auto simp: Shape_Vert_New_def)
  then have v: "v = cut_vert m d p" by (simp add: pl m PC_Vert_New_cut)
  have "cut_vert m d (point v) = v" unfolding v point_cut_vert cut_vert_point ..
  then have "v = cut_vert m d (point v)" by simp
  with vi e v show ?thesis by (auto simp: vinv_def)
next
  case (Some x)
  with r have e: "v = x" "sh' = sh" by (auto simp: Shape_Vert_New_def)
  from Some have mem: "x \<in> set (shape_verts sh)" and pt: "point x = [p ! 0, p ! 1, p ! 2]"
    by (auto simp: find_Some_iff)
  from vi mem have "x = cut_vert m d (point x)" unfolding vinv_def by blast
  then have "x = cut_vert m d p" unfolding pt cut_vert_point .
  with e vi mem show ?thesis by auto
qed

lemma Shape_Edge_New_cut:
  assumes ei: "einv pl sh" and r: "Shape_Edge_New a b (Some pl) sh = (e, sh')"
  shows "einv pl sh' \<and> set (shape_edges sh') = insert e (set (shape_edges sh)) \<and>
         shape_verts sh' = shape_verts sh \<and>
         (edge_vert e = (a, b) \<or> edge_vert e = (b, a)) \<and>
         inter_vld e = straddle a b \<and>
         inter_vld e = straddle (fst (edge_vert e)) (snd (edge_vert e)) \<and>
         (inter_vld e \<longrightarrow> inter e = cut_point (fst (edge_vert e)) (snd (edge_vert e)))"
proof -
  have new: "inter_vld x = straddle (fst (edge_vert x)) (snd (edge_vert x)) \<and>
             (inter_vld x \<longrightarrow> inter x = cut_point (fst (edge_vert x)) (snd (edge_vert x)))"
    if "x = PC_Edge_New (fst (edge_vert x)) (snd (edge_vert x)) (Some pl)" for x
  proof -
    let ?u = "fst (edge_vert x)" and ?w = "snd (edge_vert x)"
    have "inter_vld (PC_Edge_New ?u ?w (Some pl)) = straddle ?u ?w \<and>
          (inter_vld (PC_Edge_New ?u ?w (Some pl)) \<longrightarrow>
             inter (PC_Edge_New ?u ?w (Some pl)) = cut_point ?u ?w)"
      by (simp add: PC_Edge_New_vld PC_Edge_New_inter)
    with that show ?thesis by simp
  qed
  show ?thesis
  proof (cases "find (\<lambda>e. edge_vert e = (a, b) \<or> edge_vert e = (b, a)) (shape_edges sh)")
    case None
    with r have e: "e = PC_Edge_New a b (Some pl)" and sh': "sh' = sh\<lparr>shape_edges := shape_edges sh @ [e]\<rparr>"
      by (auto simp: Shape_Edge_New_def)
    from e have ev: "edge_vert e = (a, b)" by (simp add: PC_Edge_New_verts)
    with e have self: "e = PC_Edge_New (fst (edge_vert e)) (snd (edge_vert e)) (Some pl)" by simp
    with ei have "einv pl sh'" unfolding einv_def sh' by auto
    with new[OF self] ev show ?thesis by (auto simp: sh')
  next
    case (Some x)
    with r have e: "e = x" "sh' = sh" by (auto simp: Shape_Edge_New_def)
    from Some have mem: "x \<in> set (shape_edges sh)"
      and ev: "edge_vert x = (a, b) \<or> edge_vert x = (b, a)"
      by (auto simp: find_Some_iff)
    from ei mem have self: "x = PC_Edge_New (fst (edge_vert x)) (snd (edge_vert x)) (Some pl)"
      unfolding einv_def by blast
    from new[OF self] ev have "inter_vld x = straddle a b" by (auto simp: straddle_sym)
    with new[OF self] ev ei e mem show ?thesis by auto
  qed
qed

lemma Make_Faces_lookup_cut:
  assumes pl: "pl = PlaneCut_plane nrm d" and m: "m = scaled_normal nrm"
    and vi: "vinv m d sh" and ei: "einv pl sh"
    and r: "Make_Faces_lookup pl sh p1 p2 p3 = (v, e, sh')"
  shows "vinv m d sh' \<and> einv pl sh' \<and>
         v = [cut_vert m d p1, cut_vert m d p2, cut_vert m d p3] \<and>
         set v \<subseteq> set (shape_verts sh') \<and>
         set (shape_verts sh) \<subseteq> set (shape_verts sh') \<and>
         set (shape_edges sh') = set e \<union> set (shape_edges sh) \<and>
         (\<exists>ea eb ec. e = [ea, eb, ec] \<and>
            (edge_vert ea = (v ! 0, v ! 1) \<or> edge_vert ea = (v ! 1, v ! 0)) \<and>
            (edge_vert eb = (v ! 1, v ! 2) \<or> edge_vert eb = (v ! 2, v ! 1)) \<and>
            (edge_vert ec = (v ! 2, v ! 0) \<or> edge_vert ec = (v ! 0, v ! 2)) \<and>
            inter_vld ea = straddle (v ! 0) (v ! 1) \<and>
            inter_vld eb = straddle (v ! 1) (v ! 2) \<and>
            inter_vld ec = straddle (v ! 2) (v ! 0) \<and>
            (\<forall>x \<in> set e. inter_vld x = straddle (fst (edge_vert x)) (snd (edge_vert x)) \<and>
               (inter_vld x \<longrightarrow> inter x = cut_point (fst (edge_vert x)) (snd (edge_vert x)))))"
proof -
  obtain va sh1 where a: "Shape_Vert_New p1 (Some pl) sh = (va, sh1)" by fastforce
  obtain vb sh2 where b: "Shape_Vert_New p2 (Some pl) sh1 = (vb, sh2)" by fastforce
  obtain vc sh3 where c: "Shape_Vert_New p3 (Some pl) sh2 = (vc, sh3)" by fastforce
  obtain ea sh4 where ea: "Shape_Edge_New va vb (Some pl) sh3 = (ea, sh4)" by fastforce
  obtain eb sh5 where eb: "Shape_Edge_New vb vc (Some pl) sh4 = (eb, sh5)" by fastforce
  obtain ec sh6 where ec: "Shape_Edge_New vc va (Some pl) sh5 = (ec, sh6)" by fastforce
  from r a b c ea eb ec have res: "v = [va, vb, vc]" "e = [ea, eb, ec]" "sh' = sh6"
    by (simp_all add: Make_Faces_lookup_def)
  note A = Shape_Vert_New_cut[OF pl m vi a]
  then have v1: "vinv m d sh1" and va: "va = cut_vert m d p1" by simp_all
  note B = Shape_Vert_New_cut[OF pl m v1 b]
  then have v2: "vinv m d sh2" and vb: "vb = cut_vert m d p2" by simp_all
  note C = Shape_Vert_New_cut[OF pl m v2 c]
  then have v3: "vinv m d sh3" and vc: "vc = cut_vert m d p3" by simp_all
  from A B C have e3: "shape_edges sh3 = shape_edges sh" by simp
  from A B C have s3: "set (shape_verts sh) \<subseteq> set (shape_verts sh3)"
    and m3: "va \<in> set (shape_verts sh3)" "vb \<in> set (shape_verts sh3)" "vc \<in> set (shape_verts sh3)"
    by auto
  from ei e3 have ei3: "einv pl sh3" by (simp add: einv_def)
  note EA = Shape_Edge_New_cut[OF ei3 ea]
  then have ei4: "einv pl sh4" by simp
  note EB = Shape_Edge_New_cut[OF ei4 eb]
  then have ei5: "einv pl sh5" by simp
  note EC = Shape_Edge_New_cut[OF ei5 ec]
  then have ei6: "einv pl sh6" by simp
  from EA EB EC have vs: "shape_verts sh6 = shape_verts sh3" by simp
  with v3 have v6: "vinv m d sh6" by (simp add: vinv_def)
  from EA EB EC e3 have se: "set (shape_edges sh6) = set [ea, eb, ec] \<union> set (shape_edges sh)"
    by auto
  let ?P = "\<lambda>x. inter_vld x = straddle (fst (edge_vert x)) (snd (edge_vert x)) \<and>
               (inter_vld x \<longrightarrow> inter x = cut_point (fst (edge_vert x)) (snd (edge_vert x)))"
  have "?P ea" using EA by blast
  moreover have "?P eb" using EB by blast
  moreover have "?P ec" using EC by blast
  ultimately have ed: "\<forall>x \<in> set [ea, eb, ec]. ?P x" by simp
  from EA EB EC have iv: "inter_vld ea = straddle va vb" "inter_vld eb = straddle vb vc"
     "inter_vld ec = straddle vc va"
     "edge_vert ea = (va, vb) \<or> edge_vert ea = (vb, va)"
     "edge_vert eb = (vb, vc) \<or> edge_vert eb = (vc, vb)"
     "edge_vert ec = (vc, va) \<or> edge_vert ec = (va, vc)" by simp_all
  from v6 ei6 se iv ed s3 m3 vs show ?thesis unfolding res va[symmetric] vb[symmetric] vc[symmetric]
    by simp
qed

lemma Make_Faces_cut:
  assumes pl: "pl = PlaneCut_plane nrm d" and m: "m = scaled_normal nrm"
    and vi: "vinv m d sh" and ei: "einv pl sh"
    and r: "Make_Faces E pl sh p1 p2 p3 = (0, ops, sh')"
  shows "vinv m d sh' \<and> einv pl sh' \<and>
         set (shape_verts sh) \<subseteq> set (shape_verts sh') \<and>
         set (shape_edges sh) \<subseteq> set (shape_edges sh') \<and>
         cut_tri_ok m d ops sh' (p1, p2, p3) \<and>
         (\<forall>e \<in> set (shape_edges sh') - set (shape_edges sh). cut_edge_ok ops e)"
proof -
  obtain v e sh1 where l: "Make_Faces_lookup pl sh p1 p2 p3 = (v, e, sh1)"
    by (metis prod_cases3)
  with r have sw: "Make_Faces_switch [p1, p2, p3] v e = (0, ops)" and s: "sh' = sh1"
    by (auto simp: Make_Faces_def split: prod.splits if_splits)
  let ?a = "cut_vert m d p1" and ?b = "cut_vert m d p2" and ?c = "cut_vert m d p3"
  from Make_Faces_lookup_cut[OF pl m vi ei l] obtain ea eb ec where
    L: "vinv m d sh1" "einv pl sh1" "v = [?a, ?b, ?c]"
       "set v \<subseteq> set (shape_verts sh1)" "set (shape_verts sh) \<subseteq> set (shape_verts sh1)"
       "set (shape_edges sh1) = set e \<union> set (shape_edges sh)"
       "e = [ea, eb, ec]"
       "edge_vert ea = (v ! 0, v ! 1) \<or> edge_vert ea = (v ! 1, v ! 0)"
       "edge_vert eb = (v ! 1, v ! 2) \<or> edge_vert eb = (v ! 2, v ! 1)"
       "edge_vert ec = (v ! 2, v ! 0) \<or> edge_vert ec = (v ! 0, v ! 2)"
       "inter_vld ea = straddle (v ! 0) (v ! 1)"
       "inter_vld eb = straddle (v ! 1) (v ! 2)"
       "inter_vld ec = straddle (v ! 2) (v ! 0)"
       "\<forall>x \<in> set e. inter_vld x = straddle (fst (edge_vert x)) (snd (edge_vert x)) \<and>
               (inter_vld x \<longrightarrow> inter x = cut_point (fst (edge_vert x)) (snd (edge_vert x)))"
    by blast
  have iv: "inter_vld ea = straddle ?a ?b" "inter_vld eb = straddle ?b ?c"
    "inter_vld ec = straddle ?c ?a"
    using L(11,12,13) by (simp_all add: L(3))
  from Make_Faces_switch_both[OF L(7) L(3) iv sw]
  have dn: "\<forall>x \<in> set e. inter_vld x \<longrightarrow> edge_done ops (inter x)" by (simp add: L(7))
  with L(14) have ok: "\<forall>x \<in> set e. cut_edge_ok ops x" unfolding cut_edge_ok_def by blast
  have mem: "ea \<in> set (shape_edges sh1)" "eb \<in> set (shape_edges sh1)" "ec \<in> set (shape_edges sh1)"
    by (simp_all add: L(6) L(7))
  from ok have oks: "cut_edge_ok ops ea" "cut_edge_ok ops eb" "cut_edge_ok ops ec"
    by (simp_all add: L(7))
  have ev: "edge_vert ea = (?a, ?b) \<or> edge_vert ea = (?b, ?a)"
     "edge_vert eb = (?b, ?c) \<or> edge_vert eb = (?c, ?b)"
     "edge_vert ec = (?c, ?a) \<or> edge_vert ec = (?a, ?c)"
    using L(8,9,10) by (simp_all add: L(3))
  have "cut_edge_in ops sh1 ?a ?b" "cut_edge_in ops sh1 ?b ?c" "cut_edge_in ops sh1 ?c ?a"
    unfolding cut_edge_in_def using mem oks ev by blast+
  moreover from L(4) have "?a \<in> set (shape_verts sh1)" "?b \<in> set (shape_verts sh1)"
    "?c \<in> set (shape_verts sh1)" by (simp_all add: L(3))
  ultimately have tri: "cut_tri_ok m d ops sh1 (p1, p2, p3)"
    by (simp add: cut_tri_ok_def Let_def)
  from L(6) ok have "\<forall>x \<in> set (shape_edges sh1) - set (shape_edges sh). cut_edge_ok ops x"
    by auto
  with L(1,2,5,6) tri show ?thesis unfolding s by auto
qed

lemma Make_Faces_ret: "Make_Faces E pl sh p1 p2 p3 = (ret, ops, sh') \<Longrightarrow> \<not> ret < 0 \<Longrightarrow> ret = 0"
  by (auto simp: Make_Faces_def Make_Faces_switch_def Let_def split: prod.splits if_splits)

lemma Make_Faces_loop_cut:
  assumes pl: "pl = PlaneCut_plane nrm d" and m: "m = scaled_normal nrm"
  shows "vinv m d sh \<Longrightarrow> einv pl sh \<Longrightarrow>
         Make_Faces_loop E pl tris sh = Some (ops, sh') \<Longrightarrow>
         vinv m d sh' \<and> einv pl sh' \<and>
         set (shape_verts sh) \<subseteq> set (shape_verts sh') \<and>
         set (shape_edges sh) \<subseteq> set (shape_edges sh') \<and>
         (\<forall>t \<in> set tris. cut_tri_ok m d ops sh' t) \<and>
         (\<forall>e \<in> set (shape_edges sh') - set (shape_edges sh). cut_edge_ok ops e)"
proof (induction tris arbitrary: sh ops)
  case Nil
  then show ?case by simp
next
  case (Cons t tris)
  obtain p1 p2 p3 where t: "t = (p1, p2, p3)" by (cases t) auto
  obtain ret ops1 sh1 where mf: "Make_Faces E pl sh p1 p2 p3 = (ret, ops1, sh1)"
    by (metis prod_cases3)
  from Cons.prems(3) mf have nr: "\<not> ret < 0"
    by (auto simp: t split: if_splits)
  with Make_Faces_ret[OF mf] have r0: "ret = 0" by simp
  from Cons.prems(3) mf nr obtain ops2 where
    l: "Make_Faces_loop E pl tris sh1 = Some (ops2, sh')" and o: "ops = ops1 @ ops2"
    by (auto simp: t split: option.splits)
  note M = Make_Faces_cut[OF pl m Cons.prems(1,2) mf[unfolded r0]]
  then have v1: "vinv m d sh1" and e1: "einv pl sh1" by simp_all
  note I = Cons.IH[OF v1 e1 l]
  have s1: "set ops1 \<subseteq> set ops" and s2: "set ops2 \<subseteq> set ops" by (simp_all add: o)
  from I have i1: "set (shape_verts sh1) \<subseteq> set (shape_verts sh')"
    and i2: "set (shape_edges sh1) \<subseteq> set (shape_edges sh')" by simp_all
  from M have "cut_tri_ok m d ops1 sh1 t" by (simp add: t)
  then have t1: "cut_tri_ok m d ops sh' t" using s1 i1 i2 by (rule cut_tri_ok_mono)
  have t2: "\<forall>t \<in> set tris. cut_tri_ok m d ops sh' t"
  proof
    fix u assume "u \<in> set tris"
    with I have "cut_tri_ok m d ops2 sh' u" by simp
    then show "cut_tri_ok m d ops sh' u" using s2 by (rule cut_tri_ok_mono) simp_all
  qed
  have ed: "\<forall>e \<in> set (shape_edges sh') - set (shape_edges sh). cut_edge_ok ops e"
  proof
    fix e assume e: "e \<in> set (shape_edges sh') - set (shape_edges sh)"
    show "cut_edge_ok ops e"
    proof (cases "e \<in> set (shape_edges sh1)")
      case True
      with M e have "cut_edge_ok ops1 e" by simp
      then show ?thesis using s1 by (rule cut_edge_ok_mono)
    next
      case False
      with I e have "cut_edge_ok ops2 e" by simp
      then show ?thesis using s2 by (rule cut_edge_ok_mono)
    qed
  qed
  from M I t1 t2 ed show ?case by auto
qed

lemma vinv_empty: "vinv m d shape_empty"
  by (simp add: vinv_def shape_empty_def)

lemma einv_empty: "einv pl shape_empty"
  by (simp add: einv_def shape_empty_def)

subsection \<open>The sample triangle\<close>

lemma sqrt5: "sqrt 4 = 2" "sqrt 1 = 1" "sqrt 49 = 7"
  using sqrt_sq[of 2] sqrt_sq[of 7] by simp_all

lemma normal5: "scaled_normal n5 = [Fin 0, Fin 0, Fin 1]"
  by (simp add: scaled_normal_def n5_def sqrt5 rnd_eval)

lemma dist5:
  "cut_dist [Fin 0, Fin 0, Fin 1] (Fin 1) [Fin (- 1), Fin 0, Fin 0] = Fin (- 1)"
  "cut_dist [Fin 0, Fin 0, Fin 1] (Fin 1) [Fin 2, Fin 6, Fin 3] = Fin 2"
  "cut_dist [Fin 0, Fin 0, Fin 1] (Fin 1) [Fin 0, Fin 1, Fin 0] = Fin (- 1)"
  by (simp_all add: cut_dist_def sqrt5 d1e5_def rnd_eval)

lemma pv5:
  "PC_Vert_New [Fin (- 1), Fin 0, Fin 0] (Some (PlaneCut_plane n5 (Fin 1))) = v5a"
  "PC_Vert_New [Fin 2, Fin 6, Fin 3] (Some (PlaneCut_plane n5 (Fin 1))) = v5b"
  "PC_Vert_New [Fin 0, Fin 1, Fin 0] (Some (PlaneCut_plane n5 (Fin 1))) = v5c"
  by (simp_all add: PC_Vert_New_cut normal5 cut_vert_def dist5 v5a_def v5b_def v5c_def)

lemma pe5:
  "PC_Edge_New v5a v5b (Some pl) = e5a"
  "PC_Edge_New v5b v5c (Some pl) = e5b"
  "PC_Edge_New v5c v5a (Some pl) = e5c"
  by (simp_all add: PC_Edge_New_def v5a_def v5b_def v5c_def e5a_def e5b_def e5c_def q5a_def q5b_def
      Let_def rnd_eval)

lemma verts5_sel:
  "point v5a = [Fin (- 1), Fin 0, Fin 0]" "point v5b = [Fin 2, Fin 6, Fin 3]"
  "point v5c = [Fin 0, Fin 1, Fin 0]"
  "vert_dist v5a = Fin (- 1)" "vert_dist v5b = Fin 2" "vert_dist v5c = Fin (- 1)"
  "v5a \<noteq> v5b" "v5b \<noteq> v5c" "v5c \<noteq> v5a" "v5b \<noteq> v5a" "v5c \<noteq> v5b" "v5a \<noteq> v5c"
  by (simp_all add: v5a_def v5b_def v5c_def)

lemma edges5_sel:
  "edge_vert e5a = (v5a, v5b)" "edge_vert e5b = (v5b, v5c)" "edge_vert e5c = (v5c, v5a)"
  "inter_vld e5a" "inter_vld e5b" "\<not> inter_vld e5c"
  "inter e5a = q5a" "inter e5b = q5b"
  by (simp_all add: e5a_def e5b_def e5c_def)

lemma lookup5:
  "Make_Faces_lookup (PlaneCut_plane n5 (Fin 1)) shape_empty
     [Fin (- 1), Fin 0, Fin 0] [Fin 2, Fin 6, Fin 3] [Fin 0, Fin 1, Fin 0] =
   ([v5a, v5b, v5c], [e5a, e5b, e5c], shape5)"
  by (simp add: Make_Faces_lookup_def Shape_Vert_New_def shape_empty_def pv5 Shape_Edge_New_def
      pe5 verts5_sel edges5_sel shape5_def)

lemma quad5: "Make_Quad [Fin 0, Fin 1, Fin 0] [Fin (- 1), Fin 0, Fin 0] q5a q5b 0 =
   [Face_New 0 [Fin 0, Fin 1, Fin 0] q5a q5b, Face_New 0 [Fin 0, Fin 1, Fin 0] [Fin (- 1), Fin 0, Fin 0] q5a]"
  by (simp add: Make_Quad_def Dist2_def q5a_def q5b_def Let_def rnd_eval)

lemma side5: "side_of v5a = 0" "side_of v5b = 1" "side_of v5c = 0"
  "\<not> on_plane v5a" "\<not> on_plane v5b" "\<not> on_plane v5c"
  by (simp_all add: side_of_def on_plane_def v5a_def v5b_def v5c_def)

lemma switch5:
  "Make_Faces_switch [[Fin (- 1), Fin 0, Fin 0], [Fin 2, Fin 6, Fin 3], [Fin 0, Fin 1, Fin 0]]
     [v5a, v5b, v5c] [e5a, e5b, e5c] = (0, ops5)"
  by (simp add: Make_Faces_switch_def Let_def edges5_sel side5 verts5_sel quad5 ops5_def)

lemma faces5: "LP_PlaneCut_faces E0 n5 (Fin 1) [tri5] = Some (ops5, shape5)"
proof -
  have e: "obj_malloc E0" by (simp add: E0_def)
  show ?thesis
    by (simp add: LP_PlaneCut_faces_def tri5_def Make_Faces_def e lookup5 switch5)
qed

subsection \<open>Claim C5\<close>

text \<open>
  Claim C5 says that \<open>LP_PlaneCut\<close> with plane \<open>(n, d)\<close> gives every input vertex \<open>v\<close>
  the distance \<open>v \<cdot> n - d\<close>, and that an edge is cut at \<open>v0 + x \<cdot> (v1 - v0)\<close>. The code first
  scales \<open>n\<close> to length one and leaves \<open>d\<close> as it is, and it computes the point as
  \<open>(1 - x) \<cdot> v0 + x \<cdot> v1\<close>. On the sample triangle, cut with the normal (0, 0, 2) and
  \<open>d = 1\<close>, the vertex (2, 6, 3) is given the distance 2, where \<open>v \<cdot> n - d\<close> is 5; and the
  edge from (-1, 0, 0) to (2, 6, 3), with the distances -1 and 2, is cut at a point whose first
  coordinate is \<open>2\<^sup>-\<^sup>2\<^sup>4\<close>, where \<open>v0 + x \<cdot> (v1 - v0)\<close> gives 0 in the same arithmetic.
\<close>

theorem LP_PlaneCut_dist_unnormalised:
  "LP_PlaneCut_faces E0 n5 (Fin 1) [tri5] = Some (ops5, shape5) \<and>
   v5b \<in> set (shape_verts shape5) \<and>
   v5b = \<lparr>point = [Fin 2, Fin 6, Fin 3], vert_dist = Fin 2\<rparr> \<and>
   cut_dist n5 (Fin 1) [Fin 2, Fin 6, Fin 3] = Fin 5 \<and>
   e5a \<in> set (shape_edges shape5) \<and>
   edge_vert e5a = (v5a, v5b) \<and> inter_vld e5a \<and>
   inter e5a = [Fin (1 / 16777216), Fin 2, Fin 1] \<and>
   point_claimed v5a v5b = [Fin 0, Fin 2, Fin 1] \<and>
   Add2dPoint 0 (inter e5a) \<in> set ops5 \<and> Add2dPoint 1 (inter e5a) \<in> set ops5"
proof -
  have "cut_dist n5 (Fin 1) [Fin 2, Fin 6, Fin 3] = Fin 5"
    by (simp add: cut_dist_def n5_def sqrt5 d1e5_def rnd_eval)
  moreover have "point_claimed v5a v5b = [Fin 0, Fin 2, Fin 1]"
    by (simp add: point_claimed_def v5a_def v5b_def Let_def rnd_eval)
  moreover have "Add2dPoint 0 q5a \<in> set ops5" "Add2dPoint 1 q5a \<in> set ops5"
    by (simp_all add: ops5_def)
  ultimately show ?thesis
    using faces5 edges5_sel by (simp add: shape5_def q5a_def v5b_def)
qed

text \<open>
  Claim C5, with the normal scaled as the code scales it and the point as the code computes
  it, every operation rounded to \<open>float\<close> (the tolerance is a product of doubles, then
  converted). For every plane \<open>(n, d)\<close> and every list of input triangles on which
  \<open>Make_Faces\<close> has succeeded, with \<open>m = scaled_normal n\<close>:
  \<^item> for every input triangle, the shape holds for each corner \<open>v\<close> the vertex with
    \<open>v.dist = v \<cdot> m - d\<close>, set to exactly 0 when \<open>|v.dist| < 1e-5 \<cdot> max(|v|, |d|)\<close>
    (\<open>cut_vert\<close>, \<open>cut_dist\<close>), and for each side an edge between the vertices of its ends
    (\<open>cut_tri_ok\<close>);
  \<^item> every vertex of the shape is the vertex \<open>cut_vert\<close> of its point;
  \<^item> every edge of the shape has an intersection point exactly when the distances of its
    vertices \<open>v0\<close>, \<open>v1\<close> have strictly opposite signs, and then that point is
    \<open>(1 - x) \<cdot> v0 + x \<cdot> v1\<close> with \<open>x = - v0.dist / (v1.dist - v0.dist)\<close>, it has been
    recorded in the 2-D outline of both output shapes and is a corner of a face of each
    (\<open>cut_edge_ok\<close>, \<open>cut_point\<close>, \<open>edge_done\<close>).
\<close>

theorem LP_PlaneCut_dist_inter:
  assumes r: "LP_PlaneCut_faces E n d tris = Some (ops, sh)"
  shows "(\<forall>t \<in> set tris. cut_tri_ok (scaled_normal n) d ops sh t) \<and>
         (\<forall>v \<in> set (shape_verts sh). v = cut_vert (scaled_normal n) d (point v)) \<and>
         (\<forall>e \<in> set (shape_edges sh). cut_edge_ok ops e)"
proof -
  define pl where "pl = PlaneCut_plane n d"
  define m where "m = scaled_normal n"
  from r have l: "Make_Faces_loop E pl tris shape_empty = Some (ops, sh)"
    by (simp add: LP_PlaneCut_faces_def pl_def)
  note L = Make_Faces_loop_cut[OF pl_def m_def vinv_empty einv_empty l]
  then have "\<forall>e \<in> set (shape_edges sh). cut_edge_ok ops e" by (simp add: shape_empty_def)
  with L show ?thesis unfolding vinv_def m_def by blast
qed

theorem LP_PlaneCut_dist_inter_witness:
  "LP_PlaneCut_faces E0 n5 (Fin 1) [tri5] = Some (ops5, shape5) \<and>
   scaled_normal n5 = [Fin 0, Fin 0, Fin 1] \<and>
   cut_tri_ok [Fin 0, Fin 0, Fin 1] (Fin 1) ops5 shape5 tri5 \<and>
   v5b = cut_vert [Fin 0, Fin 0, Fin 1] (Fin 1) [Fin 2, Fin 6, Fin 3] \<and>
   vert_dist v5b = Fin 2 \<and>
   cut_edge_ok ops5 e5a \<and>
   inter e5a = [Fin (1 / 16777216), Fin 2, Fin 1]"
proof -
  have v: "v5b \<in> set (shape_verts shape5)" and e: "e5a \<in> set (shape_edges shape5)"
    by (simp_all add: shape5_def)
  from LP_PlaneCut_dist_inter[OF faces5] v e
  have "cut_tri_ok (scaled_normal n5) (Fin 1) ops5 shape5 tri5 \<and>
        v5b = cut_vert (scaled_normal n5) (Fin 1) (point v5b) \<and>
        cut_edge_ok ops5 e5a"
    by simp
  with faces5 verts5_sel edges5_sel show ?thesis by (simp add: normal5 q5a_def)
qed

section \<open>Plane cut: the whole call\<close>

lemma ListFree_diff: "ListFree out live = live - out_blocks out"
proof (induction out arbitrary: live)
  case Nil
  then show ?case by (simp add: ListFree_def out_blocks_def)
next
  case (Cons x out)
  obtain s k where x: "x = (s, k)" by (cases x)
  have "ListFree (x # out) live = ListFree out (live - {Poly_blk s k} - {Node_blk s k})"
    by (simp add: ListFree_def x)
  then show ?case unfolding Cons.IH by (auto simp: out_blocks_def x)
qed

lemmas exit_defs = exit_err_def exit_err2_def exit_err3_def exit_err4_def exit_err5_def
  exit_err6_def exit_err7_def

lemma exit_empty:
  "live \<subseteq> shape_blocks \<union> out_blocks out \<Longrightarrow> exit_err4 out live = {}"
  "live \<subseteq> insert (Tri_blk s) (shape_blocks \<union> out_blocks out) \<Longrightarrow> exit_err5 s out live = {}"
  "live \<subseteq> insert (Iter_blk s) (insert (Tri_blk s) (shape_blocks \<union> out_blocks out)) \<Longrightarrow>
     exit_err6 s out live = {}"
  "live \<subseteq> insert (Poly_blk s k) (insert (Iter_blk s) (insert (Tri_blk s) (shape_blocks \<union> out_blocks out))) \<Longrightarrow>
     exit_err7 s k out live = {}"
  unfolding exit_defs ListFree_diff shape_blocks_def by auto

lemma out_blocks_snoc:
  "out_blocks (out @ [(s, k)]) = insert (Poly_blk s k) (insert (Node_blk s k) (out_blocks out))"
  by (auto simp: out_blocks_def)

lemma Poly_loop_live:
  "live \<subseteq> insert (Iter_blk s) (insert (Tri_blk s) (shape_blocks \<union> out_blocks out)) \<Longrightarrow>
   (case Poly_loop C s ks (out, live) of
      Inl l \<Rightarrow> l = {}
    | Inr (out', live') \<Rightarrow>
        live' \<subseteq> insert (Iter_blk s) (insert (Tri_blk s) (shape_blocks \<union> out_blocks out')))"
proof (induction ks arbitrary: out live)
  case Nil
  then show ?case by simp
next
  case (Cons k ks)
  let ?live = "insert (Node_blk s k) (insert (Poly_blk s k) live)"
  have a: "exit_err6 s out live = {}" using Cons.prems by (rule exit_empty(3))
  have b: "exit_err7 s k out (insert (Poly_blk s k) live) = {}"
    by (rule exit_empty(4)) (use Cons.prems in auto)
  have "?live \<subseteq> insert (Iter_blk s) (insert (Tri_blk s) (shape_blocks \<union> out_blocks (out @ [(s, k)])))"
    unfolding out_blocks_snoc using Cons.prems by auto
  from Cons.IH[OF this] a b show ?case by simp
qed

lemma Cut_side_live:
  assumes "live \<subseteq> shape_blocks \<union> out_blocks out"
  shows "case Cut_side C s (out, live, valid) of
           Inl l \<Rightarrow> l = {}
         | Inr (out', live', valid') \<Rightarrow>
             live' \<subseteq> shape_blocks \<union> out_blocks out' \<and>
             valid' = (valid \<and> Triangulate2D_res C s \<noteq> None)"
proof -
  define live1 where
    "live1 = (case Triangulate2D_res C s of None \<Rightarrow> live | Some n \<Rightarrow> insert (Tri_blk s) live)"
  have l1: "live1 \<subseteq> insert (Tri_blk s) (shape_blocks \<union> out_blocks out)"
    using assms by (auto simp: live1_def split: option.splits)
  then have e5: "exit_err5 s out live1 = {}" by (rule exit_empty(2))
  have l2: "insert (Iter_blk s) live1 \<subseteq>
      insert (Iter_blk s) (insert (Tri_blk s) (shape_blocks \<union> out_blocks out))"
    using l1 by auto
  note P = Poly_loop_live[OF l2, of C "[0..<faces_unvisited C s]"]
  have nb: "Iter_blk s \<notin> shape_blocks \<union> out_blocks o'" "Tri_blk s \<notin> shape_blocks \<union> out_blocks o'" for o'
    by (auto simp: shape_blocks_def out_blocks_def)
  show ?thesis
  proof (cases "Poly_loop C s [0..<faces_unvisited C s] (out, insert (Iter_blk s) live1)")
    case (Inl l)
    with P have "l = {}" by simp
    with Inl e5 show ?thesis
      by (auto simp: Cut_side_def live1_def Let_def split: option.splits)
  next
    case (Inr r)
    obtain out' live2 where r: "r = (out', live2)" by (cases r)
    from P Inr r have "live2 \<subseteq> insert (Iter_blk s) (insert (Tri_blk s) (shape_blocks \<union> out_blocks out'))"
      by simp
    then have "live2 - {Iter_blk s} - {Tri_blk s} \<subseteq> shape_blocks \<union> out_blocks out'" by auto
    with Inr r e5 show ?thesis
      by (auto simp: Cut_side_def live1_def Let_def split: option.splits)
  qed
qed

lemma faces6: "LP_PlaneCut_faces E0 n5 (Fin 1) (in_tris inp6) = Some (ops5, shape5)"
  using faces5 by (simp add: inp6_def)

subsection \<open>Claim C6\<close>

text \<open>
  Claim C6. When \<open>LP_Triangulate2D\<close> returns \<open>NULL\<close> for the outline of either side,
  \<open>LP_PlaneCut\<close> returns \<open>NULL\<close>, whatever the other calls do: no output list is
  returned. No block that the call has allocated is live when it returns: the polyhedra
  built before and after the failure and the nodes of the output list have been freed with
  the shapes. The input is as it was.
\<close>

theorem LP_PlaneCut_triangulation_fails:
  assumes "Triangulate2D_res C 0 = None \<or> Triangulate2D_res C 1 = None"
  shows "LP_PlaneCut E C inp nrm d = (None, {}, inp)"
proof -
  let ?S = "{Shape_blk 0, Shape_blk 1, Shape_blk 2}"
  have e: "exit_err [] {} = {}" "exit_err2 [] {Shape_blk 0} = {}"
    "exit_err3 [] {Shape_blk 0, Shape_blk 1} = {}" "exit_err4 [] ?S = {}"
    by (auto simp: exit_defs ListFree_def)
  have s: "?S \<subseteq> shape_blocks \<union> out_blocks []" by (simp add: shape_blocks_def)
  note A = Cut_side_live[OF s, where C = C and s = 0 and valid = True]
  show ?thesis
  proof (cases "Cut_side C 0 ([], ?S, True)")
    case (Inl l)
    with A have "l = {}" by simp
    with Inl e show ?thesis by (simp add: LP_PlaneCut_def)
  next
    case (Inr st0)
    obtain out0 live0 valid0 where st0: "st0 = (out0, live0, valid0)" by (cases st0)
    from A Inr st0 have l0: "live0 \<subseteq> shape_blocks \<union> out_blocks out0"
      and v0: "valid0 = (Triangulate2D_res C 0 \<noteq> None)" by simp_all
    note B = Cut_side_live[OF l0, where C = C and s = 1 and valid = valid0]
    show ?thesis
    proof (cases "Cut_side C 1 (out0, live0, valid0)")
      case (Inl l)
      with B have "l = {}" by simp
      with Inl \<open>Cut_side C 0 ([], ?S, True) = Inr st0\<close> st0 e show ?thesis
        by (simp add: LP_PlaneCut_def)
    next
      case (Inr st1)
      obtain out1 live1 valid1 where st1: "st1 = (out1, live1, valid1)" by (cases st1)
      from B Inr st1 have l1: "live1 \<subseteq> shape_blocks \<union> out_blocks out1"
        and v1: "valid1 = (valid0 \<and> Triangulate2D_res C 1 \<noteq> None)" by simp_all
      from assms v0 v1 have nv: "\<not> valid1" by auto
      from l1 have x: "exit_err4 out1 live1 = {}" by (rule exit_empty(1))
      from Inr st1 \<open>Cut_side C 0 ([], ?S, True) = Inr st0\<close> st0 e nv x show ?thesis
        by (simp add: LP_PlaneCut_def)
    qed
  qed
qed

theorem LP_PlaneCut_triangulation_fails_witness:
  "Triangulate2D_res calls6 0 = None \<and>
   LP_PlaneCut_faces E0 n5 (Fin 1) (in_tris inp6) = Some (ops5, shape5) \<and>
   Cut_side calls6 0 ([], {Shape_blk 0, Shape_blk 1, Shape_blk 2}, True) =
     Inr ([(0, 0)], {Shape_blk 0, Shape_blk 1, Shape_blk 2, Poly_blk 0 0, Node_blk 0 0}, False) \<and>
   LP_PlaneCut E0 calls6 inp6 n5 (Fin 1) = (None, {}, inp6)"
proof -
  have t: "Triangulate2D_res calls6 0 = None" by (simp add: calls6_def)
  have s0: "Cut_side calls6 0 ([], {Shape_blk 0, Shape_blk 1, Shape_blk 2}, True) =
      Inr ([(0, 0)], {Shape_blk 0, Shape_blk 1, Shape_blk 2, Poly_blk 0 0, Node_blk 0 0}, False)"
    by (auto simp: Cut_side_def calls6_def)
  from LP_PlaneCut_triangulation_fails[where C = calls6 and E = E0 and inp = inp6 and nrm = n5 and d = "Fin 1"] t
  have "LP_PlaneCut E0 calls6 inp6 n5 (Fin 1) = (None, {}, inp6)" by simp
  with t faces6 s0 show ?thesis by simp
qed

section \<open>Convex hull\<close>

lemma Categorize_loop_fold:
  "Categorize_loop dat pt xx yy ring (fst q, snd q, a, M) =
     (foldl (+) a (map edge_cross
        (zip (q # map (\<lambda>i. (Dot (delta3 (dat ! i) pt) xx, Dot (delta3 (dat ! i) pt) yy)) ring)
             (map (\<lambda>i. (Dot (delta3 (dat ! i) pt) xx, Dot (delta3 (dat ! i) pt) yy)) ring))),
      foldl fmax_step M (map edge_dist
        (zip (q # map (\<lambda>i. (Dot (delta3 (dat ! i) pt) xx, Dot (delta3 (dat ! i) pt) yy)) ring)
             (map (\<lambda>i. (Dot (delta3 (dat ! i) pt) xx, Dot (delta3 (dat ! i) pt) yy)) ring))))"
proof (induction ring arbitrary: q a M)
  case Nil
  then show ?case by simp
next
  case (Cons i ring)
  let ?P = "\<lambda>i. (Dot (delta3 (dat ! i) pt) xx, Dot (delta3 (dat ! i) pt) yy)"
  obtain x1 y1 where q: "q = (x1, y1)" by (cases q)
  have step: "Categorize_loop dat pt xx yy (i # ring) (x1, y1, a, M) =
      Categorize_loop dat pt xx yy ring
        (fst (?P i), snd (?P i), a + edge_cross (q, ?P i), fmax_step M (edge_dist (q, ?P i)))"
    by (simp add: Let_def q edge_cross_def edge_dist_def fmax_step_def)
  have "Categorize_loop dat pt xx yy (i # ring) (fst q, snd q, a, M) =
      Categorize_loop dat pt xx yy ring
        (fst (?P i), snd (?P i), a + edge_cross (q, ?P i), fmax_step M (edge_dist (q, ?P i)))"
    using step by (simp only: q fst_conv snd_conv)
  also have "\<dots> =
     (foldl (+) (a + edge_cross (q, ?P i))
        (map edge_cross (zip (?P i # map ?P ring) (map ?P ring))),
      foldl fmax_step (fmax_step M (edge_dist (q, ?P i)))
        (map edge_dist (zip (?P i # map ?P ring) (map ?P ring))))"
    by (rule Cons.IH)
  finally show ?case by simp
qed

lemma ring_edges_map:
  "ring_edges (map P ring) = zip (P (last ring) # map P ring) (map P ring)"
  by (cases "ring = []") (simp_all add: ring_edges_def last_map)

lemma Categorize_rule:
  "Categorize f idx dat =
     (cat_rule (face_dist f dat idx) (face_max f dat idx) (face_tol f dat idx), face_dist f dat idx)"
proof -
  let ?P = "\<lambda>i. (Dot (delta3 (dat ! i) (dat ! idx)) (face_xx f), Dot (delta3 (dat ! i) (dat ! idx)) (face_yy f))"
  have re: "ring_edges (face_proj f dat idx) =
      zip (?P (last (face_verts f)) # map ?P (face_verts f)) (map ?P (face_verts f))"
    unfolding face_proj_def in_plane_def by (rule ring_edges_map)
  have loop: "Categorize_loop dat (dat ! idx) (face_xx f) (face_yy f) (face_verts f)
       (Dot (delta3 (dat ! last (face_verts f)) (dat ! idx)) (face_xx f),
        Dot (delta3 (dat ! last (face_verts f)) (dat ! idx)) (face_yy f), 0, MInf) =
     (face_area2 f dat idx, face_max f dat idx)"
    using Categorize_loop_fold[of dat "dat ! idx" "face_xx f" "face_yy f" "face_verts f"
        "?P (last (face_verts f))" 0 MInf]
    unfolding face_area2_def face_max_def re by simp
  show ?thesis
    unfolding Categorize_def Let_def loop prod.case
    by (simp add: cat_rule_def face_tol_def face_dist_def)
qed

lemma Categorize_dist: "snd (Categorize f idx dat) = face_dist f dat idx"
  by (simp add: Categorize_rule)

lemma fmax_step_keep: "\<not> M < x \<Longrightarrow> \<not> fmax_step M y < x"
  unfolding fmax_step_def using flt_trans by auto

lemma fmax_fold_keep: "\<not> M < x \<Longrightarrow> \<not> foldl fmax_step M ds < x"
  by (induction ds arbitrary: M) (simp_all add: fmax_step_keep)

lemma fmax_fold_upper: "x \<in> set ds \<Longrightarrow> \<not> foldl fmax_step M ds < x"
proof (induction ds arbitrary: M)
  case Nil
  then show ?case by simp
next
  case (Cons d ds)
  have "\<not> fmax_step M d < d" unfolding fmax_step_def using flt_irrefl by auto
  then have "\<not> foldl fmax_step (fmax_step M d) ds < d" by (rule fmax_fold_keep)
  with Cons show ?case by auto
qed

lemma fmax_fold_mem: "foldl fmax_step M ds \<in> insert M (set ds)"
  by (induction ds arbitrary: M) (auto simp: fmax_step_def)

lemma fmax_fold_NaN: "M \<noteq> NaN \<Longrightarrow> foldl fmax_step M ds \<noteq> NaN"
proof (induction ds arbitrary: M)
  case Nil
  then show ?case by simp
next
  case (Cons d ds)
  have "fmax_step M d \<noteq> NaN" using Cons.prems by (cases d) (simp_all add: fmax_step_def)
  then show ?case using Cons.IH by simp
qed

lemma Categorize_pts: "Categorize (f\<lparr>face_pts := p\<rparr>) idx dat = Categorize f idx dat"
  by (simp add: Categorize_def)

lemma furthest_snoc: "ds \<noteq> [] \<Longrightarrow> furthest (ds @ [d]) = fmax_step (furthest ds) d"
  by (cases ds) (simp_all add: furthest_def)

lemma PointList_Add_max:
  assumes "max_dist pl = furthest ds" "length ds = length (pl_idx pl)"
  shows "max_dist (PointList_Add pl i d) = furthest (ds @ [d]) \<and>
         length (ds @ [d]) = length (pl_idx (PointList_Add pl i d)) \<and>
         set (pl_idx (PointList_Add pl i d)) = insert i (set (pl_idx pl))"
proof (cases "ds = []")
  case True
  with assms show ?thesis by (simp add: PointList_Add_def furthest_def)
next
  case False
  with assms have ne: "pl_idx pl \<noteq> []" by auto
  show ?thesis unfolding furthest_snoc[OF False] using ne assms
    by (cases "max_dist pl < d") (simp_all add: PointList_Add_def fmax_step_def)
qed

lemma PointList_Add_set:
  "set (pl_idx (PointList_Add pl i d)) = insert i (set (pl_idx pl))"
  by (auto simp: PointList_Add_def)

lemma classify_inv:
  "(case foldl (InitSimplex_sort dat a b c) (f\<lparr>face_pts := PointList_New\<rparr>, PointList_New, PointList_New) idxs of
       (f', pool, below) \<Rightarrow> (case face_pts f' of pts' \<Rightarrow>
       f' = f\<lparr>face_pts := pts'\<rparr> \<and>
       max_dist pts' = furthest (above_dists a b c f dat idxs) \<and>
       length (above_dists a b c f dat idxs) = length (pl_idx pts') \<and>
       set (pl_idx pts') = set (sorted_out a b c f dat DELETE idxs) \<and>
       max_dist below = furthest (below_dists a b c f dat idxs) \<and>
       length (below_dists a b c f dat idxs) = length (pl_idx below) \<and>
       set (pl_idx below) = set (sorted_out a b c f dat PRESENT_cat idxs) \<and>
       set (pl_idx pool) = set (sorted_out a b c f dat EXTEND idxs)))"
proof (induction idxs rule: rev_induct)
  case Nil
  have "max_dist PointList_New = furthest []" "pl_idx PointList_New = []"
    by (simp_all add: PointList_New_def furthest_def zero_float_def)
  then show ?case
    by (simp add: above_dists_def below_dists_def sorted_out_def)
next
  case (snoc x xs)
  obtain f' pool below where st0: "foldl (InitSimplex_sort dat a b c) (f\<lparr>face_pts := PointList_New\<rparr>, PointList_New, PointList_New) xs = (f', pool, below)"
    by (metis prod_cases3)
  define pts' where "pts' = face_pts f'"
  from snoc.IH st0 have
    st: "foldl (InitSimplex_sort dat a b c) (f\<lparr>face_pts := PointList_New\<rparr>, PointList_New, PointList_New) xs =
           (f\<lparr>face_pts := pts'\<rparr>, pool, below)"
    and A: "max_dist pts' = furthest (above_dists a b c f dat xs)"
           "length (above_dists a b c f dat xs) = length (pl_idx pts')"
    and As: "set (pl_idx pts') = set (sorted_out a b c f dat DELETE xs)"
    and B: "max_dist below = furthest (below_dists a b c f dat xs)"
           "length (below_dists a b c f dat xs) = length (pl_idx below)"
    and Bs: "set (pl_idx below) = set (sorted_out a b c f dat PRESENT_cat xs)"
    and Ps: "set (pl_idx pool) = set (sorted_out a b c f dat EXTEND xs)"
    by (simp_all add: pts'_def)
  let ?D = "face_dist f dat x"
  obtain cat where c: "Categorize f x dat = (cat, ?D)"
    using Categorize_dist[of f x dat] by (cases "Categorize f x dat") simp
  have step: "foldl (InitSimplex_sort dat a b c) (f\<lparr>face_pts := PointList_New\<rparr>, PointList_New, PointList_New) (xs @ [x]) =
      InitSimplex_sort dat a b c (f\<lparr>face_pts := pts'\<rparr>, pool, below) x"
    by (simp add: st)
  show ?case
  proof (cases "x = a \<or> x = b \<or> x = c")
    case True
    then have "InitSimplex_sort dat a b c (f\<lparr>face_pts := pts'\<rparr>, pool, below) x = (f\<lparr>face_pts := pts'\<rparr>, pool, below)"
      by (simp add: InitSimplex_sort_def)
    moreover from True have "sorted_out a b c f dat k (xs @ [x]) = sorted_out a b c f dat k xs" for k
      by (auto simp: sorted_out_def)
    ultimately show ?thesis unfolding step using A As B Bs Ps
      by (simp add: above_dists_def below_dists_def)
  next
    case False
    note skip = this
    show ?thesis
    proof (cases cat)
      case DELETE
      with skip c have r: "InitSimplex_sort dat a b c (f\<lparr>face_pts := pts'\<rparr>, pool, below) x =
          (f\<lparr>face_pts := PointList_Add pts' x ?D\<rparr>, pool, below)"
        by (simp add: InitSimplex_sort_def Categorize_pts)
      from skip c DELETE have so: "sorted_out a b c f dat DELETE (xs @ [x]) = sorted_out a b c f dat DELETE xs @ [x]"
        "sorted_out a b c f dat PRESENT_cat (xs @ [x]) = sorted_out a b c f dat PRESENT_cat xs"
        "sorted_out a b c f dat EXTEND (xs @ [x]) = sorted_out a b c f dat EXTEND xs"
        by (simp_all add: sorted_out_def)
      from PointList_Add_max[OF A, of x ?D] show ?thesis unfolding step r
        using As B Bs Ps by (simp add: above_dists_def below_dists_def so)
    next
      case EXTEND
      with skip c have r: "InitSimplex_sort dat a b c (f\<lparr>face_pts := pts'\<rparr>, pool, below) x =
          (f\<lparr>face_pts := pts'\<rparr>, PointList_Add pool x \<bar>?D\<bar>, below)"
        by (simp add: InitSimplex_sort_def Categorize_pts)
      from skip c EXTEND have so: "sorted_out a b c f dat DELETE (xs @ [x]) = sorted_out a b c f dat DELETE xs"
        "sorted_out a b c f dat PRESENT_cat (xs @ [x]) = sorted_out a b c f dat PRESENT_cat xs"
        "sorted_out a b c f dat EXTEND (xs @ [x]) = sorted_out a b c f dat EXTEND xs @ [x]"
        by (simp_all add: sorted_out_def)
      show ?thesis unfolding step r
        using A As B Bs Ps by (simp add: above_dists_def below_dists_def so PointList_Add_set)
    next
      case PRESENT_cat
      with skip c have r: "InitSimplex_sort dat a b c (f\<lparr>face_pts := pts'\<rparr>, pool, below) x =
          (f\<lparr>face_pts := pts'\<rparr>, pool, PointList_Add below x (- ?D))"
        by (simp add: InitSimplex_sort_def Categorize_pts)
      from skip c PRESENT_cat have so: "sorted_out a b c f dat DELETE (xs @ [x]) = sorted_out a b c f dat DELETE xs"
        "sorted_out a b c f dat PRESENT_cat (xs @ [x]) = sorted_out a b c f dat PRESENT_cat xs @ [x]"
        "sorted_out a b c f dat EXTEND (xs @ [x]) = sorted_out a b c f dat EXTEND xs"
        by (simp_all add: sorted_out_def)
      from PointList_Add_max[OF B, of x "- ?D"] show ?thesis unfolding step r
        using A As Bs Ps by (simp add: above_dists_def below_dists_def so)
    qed
  qed
qed

lemma InitSimplex_flip_verts:
  assumes "face_verts f = [v0, v1, v2]"
  shows "InitSimplex_flip (f, below) =
           (if max_dist (face_pts f) > max_dist below
            then (f\<lparr>face_pts := below, face_verts := [v1, v0, v2],
                    face_norm := [- (face_norm f ! 0), - (face_norm f ! 1), - (face_norm f ! 2)]\<rparr>,
                  face_pts f)
            else (f, below))"
  using assms by (simp add: InitSimplex_flip_def)

subsection \<open>The sample triangle\<close>

lemma d1e5_val: "d1e5 = Fin (5902958103587057 / 590295810358705651712)"
  by (simp add: d1e5_def rnd_eval)

lemma sqrt_num:
  "sqrt 12960000 = 3600" "sqrt 3600 = 60" "sqrt 22500 = 150" "sqrt 21025 = 145" "sqrt 625 = 25"
  "sqrt 6561 = 81" "sqrt 7225 = 85"
  using sqrt_sq[of 3600] sqrt_sq[of 60] sqrt_sq[of 150] sqrt_sq[of 145] sqrt_sq[of 25]
    sqrt_sq[of 81] sqrt_sq[of 85]
  by simp_all

lemma PlaneNorm2:
  "PlaneNorm [Fin 0, Fin 0, Fin 0] [Fin 150, Fin 0, Fin 0] [Fin 7, Fin 24, Fin 0] = [Fin 0, NZero, Fin 1]"
  by (simp add: PlaneNorm_def Cross_def Normalize_def Norm_def Norm2_def Dot_def Let_def sqrt_num
      rnd_eval)

lemma Basis2: "BasisVectors [Fin 0, NZero, Fin 1] = ([NZero, Fin 1, Fin 0], [Fin (- 1), NZero, Fin 0])"
  by (simp add: BasisVectors_def Cross_def Normalize_def Norm_def Norm2_def Dot_def Let_def rnd_eval)

lemma CH_Face_New2: "CH_Face_New 0 1 2 dat2 = face2"
  by (simp add: CH_Face_New_def dat2_def PlaneNorm2 Basis2 face2_def Let_def)

lemma face2_sel: "face_verts face2 = [0, 1, 2]" "face_norm face2 = [Fin 0, NZero, Fin 1]"
  "face_xx face2 = [NZero, Fin 1, Fin 0]" "face_yy face2 = [Fin (- 1), NZero, Fin 0]"
  "face_pts face2 = PointList_New"
  by (simp_all add: face2_def)

lemma proj2: "face_proj face2 dat2 3 = [(Fin (- 10), Fin 50), (Fin (- 10), Fin (- 100)), (Fin 14, Fin 43)]"
  by (simp add: face_proj_def in_plane_def face2_sel dat2_def delta3_def Dot_def rnd_eval)

lemma edges2:
  "map edge_dist (ring_edges [(Fin (- 10), Fin 50), (Fin (- 10), Fin (- 100)), (Fin 14, Fin 43)]) =
     [Fin (11848909 / 262144), Fin 10, Fin (1753653 / 262144)]"
  "map edge_cross (ring_edges [(Fin (- 10), Fin 50), (Fin (- 10), Fin (- 100)), (Fin 14, Fin 43)]) =
     [Fin 1130, Fin 1500, Fin 970]"
  by (simp_all add: ring_edges_def edge_dist_def edge_cross_def sqrt_num rnd_eval)

lemma quant2:
  "face_dist face2 dat2 3 = Fin (1 / 2048)"
  "face_area2 face2 dat2 3 = Fin 3600"
  "face_max face2 dat2 3 = Fin (11848909 / 262144)"
  "face_tol face2 dat2 3 = Fin (5153961 / 8589934592)"
proof -
  show "face_dist face2 dat2 3 = Fin (1 / 2048)"
    by (simp add: face_dist_def face2_sel dat2_def delta3_def Dot_def rnd_eval)
  show a: "face_area2 face2 dat2 3 = Fin 3600"
    unfolding face_area2_def proj2 edges2 by (simp add: rnd_eval)
  show "face_max face2 dat2 3 = Fin (11848909 / 262144)"
    unfolding face_max_def proj2 edges2 by (simp add: fmax_step_def)
  show "face_tol face2 dat2 3 = Fin (5153961 / 8589934592)"
    unfolding face_tol_def a d1e5_val by (simp add: sqrt_num rnd_eval)
qed

lemma cat2: "Categorize face2 3 dat2 = (EXTEND, Fin (1 / 2048))"
  unfolding Categorize_rule quant2 by (simp add: cat_rule_def d1e5_val rnd_eval)

lemma area2:
  "tri_area (rvec (dat2 ! (face_verts face2 ! 0))) (rvec (dat2 ! (face_verts face2 ! 1)))
     (rvec (dat2 ! (face_verts face2 ! 2))) = 1800"
  by (simp add: tri_area_def rvec_def dat2_def face2_sel cross3_def sub3_def norm3_def sqrt_num)

lemma sqrt_1800: "sqrt 1800 < 48"
  by (rule real_less_lsqrt) simp_all

lemma claimed2: "Categorize_claimed face2 dat2 3 = DELETE"
  unfolding Categorize_claimed_def area2 quant2 using sqrt_1800 by (simp add: cat_rule_claimed_def)

subsection \<open>The sample points\<close>

lemma upt6: "[0..<6] = [0, 1, 2, 3, 4, 5]"
  by (simp add: upt_rec)

lemma minmax4: "foldl (InitSimplex_minmax dat4) (PInf, MInf, 0, 0) [0..<6] = (Fin 0, Fin 150, 0, 1)"
  unfolding upt6 by (simp add: dat4_def InitSimplex_minmax_def Let_def)

lemma dist4:
  "Dist (dat4 ! 0) (dat4 ! 0) = Fin 0" "Dist (dat4 ! 0) (dat4 ! 1) = Fin 150"
  "Dist (dat4 ! 1) (dat4 ! 0) = Fin 150" "Dist (dat4 ! 1) (dat4 ! 1) = Fin 0"
  "Dist (dat4 ! 2) (dat4 ! 0) = Fin 25" "Dist (dat4 ! 2) (dat4 ! 1) = Fin 145"
  "Dist (dat4 ! 3) (dat4 ! 0) = Fin 81" "Dist (dat4 ! 3) (dat4 ! 1) = Fin 81"
  "Dist (dat4 ! 4) (dat4 ! 0) = Fin 81" "Dist (dat4 ! 4) (dat4 ! 1) = Fin 81"
  "Dist (dat4 ! 5) (dat4 ! 0) = Fin 85" "Dist (dat4 ! 5) (dat4 ! 1) = Fin 85"
  by (simp_all add: dat4_def Dist_def Dist2_def Let_def sqrt_num rnd_eval)

lemma furthest4:
  "foldl (InitSimplex_furthest dat4 (dat4 ! 0) (dat4 ! 1)) (0, 0) [0..<6] = (Fin 170, 2)"
  unfolding upt6 by (simp add: InitSimplex_furthest_def dist4 Let_def rnd_eval del: One_nat_def)

lemma CH_Face_New4: "CH_Face_New 0 1 2 dat4 = face2"
  by (simp add: CH_Face_New_def dat4_def PlaneNorm2 Basis2 face2_def Let_def)

lemma proj4:
  "face_proj face2 dat4 3 = [(Fin (- 30), Fin 75), (Fin (- 30), Fin (- 75)), (Fin (- 6), Fin 68)]"
  "face_proj face2 dat4 4 = [(Fin (- 6), Fin 75), (Fin (- 6), Fin (- 75)), (Fin 18, Fin 68)]"
  "face_proj face2 dat4 5 = [(Fin (- 24), Fin 75), (Fin (- 24), Fin (- 75)), (Fin 0, Fin 68)]"
  by (simp_all add: face_proj_def in_plane_def face2_sel dat4_def delta3_def Dot_def rnd_eval)

lemma edges4:
  "map edge_dist (ring_edges [(Fin (- 30), Fin 75), (Fin (- 30), Fin (- 75)), (Fin (- 6), Fin 68)]) =
     [Fin (8336179 / 131072), Fin 30, Fin (- (4501645 / 262144))]"
  "map edge_dist (ring_edges [(Fin (- 6), Fin 75), (Fin (- 6), Fin (- 75)), (Fin 18, Fin 68)]) =
     [Fin (9216983 / 131072), Fin 6, Fin (212879 / 32768)]"
  "map edge_dist (ring_edges [(Fin (- 24), Fin 75), (Fin (- 24), Fin (- 75)), (Fin 0, Fin 68)]) =
     [Fin (2139095 / 32768), Fin 24, Fin (- (737619 / 65536))]"
  by (simp_all add: ring_edges_def edge_dist_def sqrt_num rnd_eval)

lemma cross4:
  "foldl (+) 0 (map edge_cross (ring_edges [(Fin (- 30), Fin 75), (Fin (- 30), Fin (- 75)), (Fin (- 6), Fin 68)])) = Fin 3600"
  "foldl (+) 0 (map edge_cross (ring_edges [(Fin (- 6), Fin 75), (Fin (- 6), Fin (- 75)), (Fin 18, Fin 68)])) = Fin 3600"
  "foldl (+) 0 (map edge_cross (ring_edges [(Fin (- 24), Fin 75), (Fin (- 24), Fin (- 75)), (Fin 0, Fin 68)])) = Fin 3600"
  by (simp_all add: ring_edges_def edge_cross_def rnd_eval)

lemma quant4:
  "face_dist face2 dat4 3 = Fin 6" "face_dist face2 dat4 4 = Fin (- 30)"
  "face_dist face2 dat4 5 = Fin (- 32)"
  "face_max face2 dat4 3 = Fin (8336179 / 131072)" "face_max face2 dat4 4 = Fin (9216983 / 131072)"
  "face_max face2 dat4 5 = Fin (2139095 / 32768)"
  "face_tol face2 dat4 3 = Fin (5153961 / 8589934592)"
  "face_tol face2 dat4 4 = Fin (5153961 / 8589934592)"
  "face_tol face2 dat4 5 = Fin (5153961 / 8589934592)"
proof -
  show "face_dist face2 dat4 3 = Fin 6" "face_dist face2 dat4 4 = Fin (- 30)"
    "face_dist face2 dat4 5 = Fin (- 32)"
    by (simp_all add: face_dist_def face2_sel dat4_def delta3_def Dot_def rnd_eval)
  show "face_max face2 dat4 3 = Fin (8336179 / 131072)" "face_max face2 dat4 4 = Fin (9216983 / 131072)"
    "face_max face2 dat4 5 = Fin (2139095 / 32768)"
    unfolding face_max_def proj4 edges4 by (simp_all add: fmax_step_def)
  have t: "to_float (dmul d1e5 (sqrtf \<bar>Fin 3600\<bar>)) = Fin (5153961 / 8589934592)"
    unfolding d1e5_val by (simp add: sqrt_num rnd_eval)
  show "face_tol face2 dat4 3 = Fin (5153961 / 8589934592)"
    "face_tol face2 dat4 4 = Fin (5153961 / 8589934592)"
    "face_tol face2 dat4 5 = Fin (5153961 / 8589934592)"
    unfolding face_tol_def face_area2_def proj4 cross4 by (rule t)+
qed

lemma cat4:
  "Categorize face2 3 dat4 = (DELETE, Fin 6)"
  "Categorize face2 4 dat4 = (PRESENT_cat, Fin (- 30))"
  "Categorize face2 5 dat4 = (PRESENT_cat, Fin (- 32))"
  unfolding Categorize_rule quant4 by (simp_all add: cat_rule_def d1e5_val rnd_eval)

lemma sort4:
  "foldl (InitSimplex_sort dat4 0 1 2) (face2, PointList_New, PointList_New) [0..<6] =
     (face2\<lparr>face_pts := \<lparr>pl_idx = [3], max_dist = Fin 6\<rparr>\<rparr>, PointList_New,
      \<lparr>pl_idx = [5, 4], max_dist = Fin 32\<rparr>)"
proof -
  have c: "Categorize (face2\<lparr>face_pts := p\<rparr>) i dat4 = Categorize face2 i dat4" for p i
    by (rule Categorize_pts)
  show ?thesis unfolding upt6
    by (simp add: InitSimplex_sort_def c cat4 face2_sel PointList_Add_def PointList_New_def)
qed

lemma flip4:
  "InitSimplex_flip (face2\<lparr>face_pts := \<lparr>pl_idx = [3], max_dist = Fin 6\<rparr>\<rparr>, \<lparr>pl_idx = [5, 4], max_dist = Fin 32\<rparr>) =
     (face2\<lparr>face_pts := \<lparr>pl_idx = [3], max_dist = Fin 6\<rparr>\<rparr>, \<lparr>pl_idx = [5, 4], max_dist = Fin 32\<rparr>)"
  by (simp add: InitSimplex_flip_def)

lemma InitSimplex_start4: "InitSimplex_start E0 6 dat4 = Inr simplex4"
proof -
  have e: "obj_malloc E0" by (simp add: E0_def)
  have n: "Norm2 (face_norm face2) = Fin 1"
    by (simp add: face2_def Norm2_def Dot_def rnd_eval)
  show ?thesis
    unfolding InitSimplex_start_def minmax4 Let_def prod.case furthest4
    by (simp add: e CH_Face_New4 n sort4 flip4 simplex4_def del: One_nat_def)
qed

subsection \<open>Claim C2\<close>

text \<open>
  Claim C2 takes the tolerance of \<open>Categorize\<close> to be \<open>1e-5 * sqrt(|A|)\<close> with \<open>A\<close> the
  area of the triangle. The code sums \<open>x1 * y2 - y1 * x2\<close> over the edges, which is twice
  that area. On the sample triangle, of area 1800, the sum is 3600 and the tolerance
  the \<open>float\<close> next to 6/10000; the point at distance \<open>2\<^sup>-\<^sup>1\<^sup>1\<close> from the plane, with
  \<open>max\<close> next to 45.2, is sorted as \<open>EXTEND\<close>, where the rule with the area, whose
  tolerance is below 48/100000, gives \<open>DELETE\<close>.
\<close>

theorem Categorize_tol_twice_area:
  "Categorize (CH_Face_New 0 1 2 dat2) 3 dat2 = (EXTEND, Fin (1 / 2048)) \<and>
   CH_Face_New 0 1 2 dat2 = face2 \<and>
   tri_area (rvec (dat2 ! (face_verts face2 ! 0))) (rvec (dat2 ! (face_verts face2 ! 1)))
     (rvec (dat2 ! (face_verts face2 ! 2))) = 1800 \<and>
   face_area2 face2 dat2 3 = Fin 3600 \<and>
   face_dist face2 dat2 3 = Fin (1 / 2048) \<and>
   face_max face2 dat2 3 = Fin (11848909 / 262144) \<and>
   face_tol face2 dat2 3 = Fin (5153961 / 8589934592) \<and>
   Categorize_claimed face2 dat2 3 = DELETE"
  unfolding CH_Face_New2 using cat2 area2 quant2 claimed2 by (intro conjI) simp_all

text \<open>
  Claim C2, with twice the signed in-plane area in the tolerance, every operation rounded
  as the code rounds it. For every face and every point, \<open>Categorize\<close> returns the distance
  \<open>dist = (v - p) \<cdot> n\<close> of the point \<open>p\<close> to the plane, \<open>v\<close> being the ring vertex before the
  first, and exactly one of \<open>DELETE\<close>, \<open>EXTEND\<close>, \<open>PRESENT\<close>, decided by \<open>cat_rule\<close> from
  \<open>dist\<close>, the maximum \<open>max\<close> over the edges of the signed in-plane distance of the point
  to the edge, and \<open>tol = 1e-5 * sqrt(|S|)\<close>, \<open>S\<close> the sum of \<open>x1 * y2 - y1 * x2\<close> over the
  edges: if \<open>max > 0\<close> then \<open>EXTEND\<close> iff \<open>|dist| < tol\<close> or \<open>|dist| < 1e-5 * max\<close>, else
  \<open>DELETE\<close> if \<open>dist > 0\<close>, else \<open>PRESENT\<close>; if not \<open>max > 0\<close> then \<open>DELETE\<close> if
  \<open>dist > tol\<close>, \<open>EXTEND\<close> if \<open>(dist + tol)\<^sup>2 + max\<^sup>2 < 4 * tol\<^sup>2\<close>, and \<open>PRESENT\<close> otherwise.
  That \<open>max\<close> is the maximum: no edge has a greater distance, and \<open>max\<close> is the distance of
  an edge, or \<open>-\<infinity>\<close>; it is never NaN, so that \<open>max > 0\<close> fails only when \<open>max \<le> 0\<close>.
\<close>

theorem Categorize_decision:
  "Categorize f idx dat =
     (cat_rule (face_dist f dat idx) (face_max f dat idx) (face_tol f dat idx),
      face_dist f dat idx) \<and>
   (\<forall>e \<in> set (ring_edges (face_proj f dat idx)). \<not> face_max f dat idx < edge_dist e) \<and>
   (face_max f dat idx = MInf \<or>
    face_max f dat idx \<in> set (map edge_dist (ring_edges (face_proj f dat idx)))) \<and>
   (face_max f dat idx > 0 \<or> face_max f dat idx \<le> 0)"
proof -
  have "face_max f dat idx \<noteq> NaN" unfolding face_max_def by (rule fmax_fold_NaN) simp
  then have "face_max f dat idx > 0 \<or> face_max f dat idx \<le> 0"
    by (cases "face_max f dat idx") auto
  moreover have "\<forall>e \<in> set (ring_edges (face_proj f dat idx)). \<not> face_max f dat idx < edge_dist e"
    unfolding face_max_def using fmax_fold_upper by auto
  moreover have "face_max f dat idx = MInf \<or>
      face_max f dat idx \<in> set (map edge_dist (ring_edges (face_proj f dat idx)))"
    unfolding face_max_def
    using fmax_fold_mem[of MInf "map edge_dist (ring_edges (face_proj f dat idx))"] by auto
  ultimately show ?thesis using Categorize_rule by blast
qed

theorem Categorize_decision_witness:
  "Categorize face2 3 dat2 = (EXTEND, Fin (1 / 2048)) \<and>
   cat_rule (Fin (1 / 2048)) (Fin (11848909 / 262144)) (Fin (5153961 / 8589934592)) = EXTEND \<and>
   face_proj face2 dat2 3 = [(Fin (- 10), Fin 50), (Fin (- 10), Fin (- 100)), (Fin 14, Fin 43)] \<and>
   map edge_dist (ring_edges (face_proj face2 dat2 3)) =
     [Fin (11848909 / 262144), Fin 10, Fin (1753653 / 262144)] \<and>
   face_max face2 dat2 3 = Fin (11848909 / 262144)"
proof -
  from Categorize_decision[of face2 3 dat2]
  have "Categorize face2 3 dat2 =
      (cat_rule (Fin (1 / 2048)) (Fin (11848909 / 262144)) (Fin (5153961 / 8589934592)), Fin (1 / 2048))"
    unfolding quant2 by simp
  moreover have "cat_rule (Fin (1 / 2048)) (Fin (11848909 / 262144)) (Fin (5153961 / 8589934592)) = EXTEND"
    by (simp add: cat_rule_def d1e5_val rnd_eval)
  ultimately show ?thesis using proj2 edges2(1) quant2(3) by simp
qed

subsection \<open>Claim C4\<close>

text \<open>
  Claim C4 has the first triangle flipped exactly when its below points exceed its above
  points. On the sample input \<open>InitSimplex\<close> builds the triangle of the points 0, 1, 2,
  sorts the point 3 above it, at distance 6, and the points 4 and 5 below it, at distances
  30 and 32: the below points exceed the above points in number and in distance, and the
  triangle is not flipped (its ring and normal are those of \<open>Face_New\<close>, the above points
  stay with the face).
\<close>

theorem InitSimplex_no_flip:
  "InitSimplex_start E0 6 dat4 = Inr simplex4 \<and>
   CH_Face_New 0 1 2 dat4 = face2 \<and>
   face_verts (sx_face simplex4) = face_verts face2 \<and>
   face_norm (sx_face simplex4) = face_norm face2 \<and>
   face_pts (sx_face simplex4) = \<lparr>pl_idx = [3], max_dist = Fin 6\<rparr> \<and>
   sx_below simplex4 = \<lparr>pl_idx = [5, 4], max_dist = Fin 32\<rparr> \<and>
   Categorize face2 3 dat4 = (DELETE, Fin 6) \<and>
   Categorize face2 4 dat4 = (PRESENT_cat, Fin (- 30)) \<and>
   Categorize face2 5 dat4 = (PRESENT_cat, Fin (- 32))"
proof -
  have "face_verts (sx_face simplex4) = face_verts face2" "face_norm (sx_face simplex4) = face_norm face2"
    "face_pts (sx_face simplex4) = \<lparr>pl_idx = [3], max_dist = Fin 6\<rparr>"
    "sx_below simplex4 = \<lparr>pl_idx = [5, 4], max_dist = Fin 32\<rparr>"
    by (simp_all add: simplex4_def)
  with InitSimplex_start4 CH_Face_New4 cat4 show ?thesis by (intro conjI)
qed

text \<open>
  Claim C4, with the condition of the code. For a first triangle \<open>f\<close> with the ring
  \<open>v0, v1, v2\<close>, after every other point has been sorted against the triangle (the
  \<open>DELETE\<close> points, above, to the face, the \<open>PRESENT\<close> points to \<open>below\<close>), the triangle is
  flipped exactly when the furthest above point is further from the plane than the
  furthest below point, the distance of an empty collection being 0 and the distances being
  those that \<open>Categorize\<close> computes. The flip swaps the first two vertices of the ring,
  negates the normal and exchanges the two collections.
\<close>

theorem InitSimplex_flip_furthest:
  assumes v: "face_verts f = [v0, v1, v2]"
    and r: "foldl (InitSimplex_sort dat a b c) (f\<lparr>face_pts := PointList_New\<rparr>, PointList_New, PointList_New)
              [0..<len] = (f', pool, below)"
  shows "set (pl_idx (face_pts f')) = set (sorted_out a b c f dat DELETE [0..<len]) \<and>
         set (pl_idx below) = set (sorted_out a b c f dat PRESENT_cat [0..<len]) \<and>
         max_dist (face_pts f') = furthest (above_dists a b c f dat [0..<len]) \<and>
         max_dist below = furthest (below_dists a b c f dat [0..<len]) \<and>
         InitSimplex_flip (f', below) =
           (if furthest (above_dists a b c f dat [0..<len]) > furthest (below_dists a b c f dat [0..<len])
            then (f'\<lparr>face_pts := below, face_verts := [v1, v0, v2],
                     face_norm := [- (face_norm f ! 0), - (face_norm f ! 1), - (face_norm f ! 2)]\<rparr>,
                  face_pts f')
            else (f', below))"
proof -
  from classify_inv[where dat = dat and a = a and b = b and c = c and f = f and idxs = "[0..<len]"] r
  have f': "f' = f\<lparr>face_pts := face_pts f'\<rparr>"
    and A: "max_dist (face_pts f') = furthest (above_dists a b c f dat [0..<len])"
    and As: "set (pl_idx (face_pts f')) = set (sorted_out a b c f dat DELETE [0..<len])"
    and B: "max_dist below = furthest (below_dists a b c f dat [0..<len])"
    and Bs: "set (pl_idx below) = set (sorted_out a b c f dat PRESENT_cat [0..<len])"
    by simp_all
  from f' v have v': "face_verts f' = [v0, v1, v2]" and n': "face_norm f' = face_norm f"
    by (metis ch_face.select_convs(1) ch_face.surjective ch_face.update_convs(5),
        metis ch_face.select_convs(2) ch_face.surjective ch_face.update_convs(5))
  from InitSimplex_flip_verts[OF v', of below] A As B Bs n' show ?thesis by simp
qed

theorem InitSimplex_flip_furthest_witness:
  "face_verts face2 = [0, 1, 2] \<and>
   foldl (InitSimplex_sort dat4 0 1 2) (face2\<lparr>face_pts := PointList_New\<rparr>, PointList_New, PointList_New)
     [0..<6] =
     (face2\<lparr>face_pts := \<lparr>pl_idx = [3], max_dist = Fin 6\<rparr>\<rparr>, PointList_New, \<lparr>pl_idx = [5, 4], max_dist = Fin 32\<rparr>) \<and>
   furthest (above_dists 0 1 2 face2 dat4 [0..<6]) = Fin 6 \<and>
   furthest (below_dists 0 1 2 face2 dat4 [0..<6]) = Fin 32 \<and>
   InitSimplex_flip (face2\<lparr>face_pts := \<lparr>pl_idx = [3], max_dist = Fin 6\<rparr>\<rparr>, \<lparr>pl_idx = [5, 4], max_dist = Fin 32\<rparr>) =
     (face2\<lparr>face_pts := \<lparr>pl_idx = [3], max_dist = Fin 6\<rparr>\<rparr>, \<lparr>pl_idx = [5, 4], max_dist = Fin 32\<rparr>)"
proof -
  have v: "face_verts face2 = [0, 1, 2]" by (simp add: face2_def)
  have p: "face2\<lparr>face_pts := PointList_New\<rparr> = face2" by (simp add: face2_def)
  have r: "foldl (InitSimplex_sort dat4 0 1 2) (face2\<lparr>face_pts := PointList_New\<rparr>, PointList_New, PointList_New)
     [0..<6] =
     (face2\<lparr>face_pts := \<lparr>pl_idx = [3], max_dist = Fin 6\<rparr>\<rparr>, PointList_New, \<lparr>pl_idx = [5, 4], max_dist = Fin 32\<rparr>)"
    unfolding p by (rule sort4)
  note T = InitSimplex_flip_furthest[OF v r]
  from T have a: "furthest (above_dists 0 1 2 face2 dat4 [0..<6]) = Fin 6"
    and b: "furthest (below_dists 0 1 2 face2 dat4 [0..<6]) = Fin 32"
    by simp_all
  from T have "InitSimplex_flip (face2\<lparr>face_pts := \<lparr>pl_idx = [3], max_dist = Fin 6\<rparr>\<rparr>, \<lparr>pl_idx = [5, 4], max_dist = Fin 32\<rparr>) =
     (face2\<lparr>face_pts := \<lparr>pl_idx = [3], max_dist = Fin 6\<rparr>\<rparr>, \<lparr>pl_idx = [5, 4], max_dist = Fin 32\<rparr>)"
    unfolding a b by simp
  with v r a b show ?thesis by (intro conjI)
qed

end
